theory Spec2Isabelle
  imports Complex_Main "HOL-Library.AList"
begin

section \<open>Weight Sync Manager: data model\<close>

text \<open>
  The addon (\<^verbatim>\<open>Weight_Sync_Manager.py\<close>) saves the vertex-group weights of a mesh
  object to a JSON file and loads them back. The mesh, its vertex groups and the file
  system belong to the host application; they are modelled here as plain values that
  the two functions receive and return.

  Conventions of the embedding:
  \<^item> a weight is a \<^typ>\<open>real\<close>; the JSON text of a number is taken to denote the
    number itself, so writing a document and parsing it again gives the same document;
  \<^item> a Python \<^verbatim>\<open>dict\<close> is an association list with distinct keys in insertion
    order; assigning a key is \<^const>\<open>AList.update\<close> (replace in place, else append);
  \<^item> mutation of the object is explicit: \<open>load_weights\<close> returns the object as it is
    left behind, also when it fails half way;
  \<^item> every \<^verbatim>\<open>raise\<close> that the \<^verbatim>\<open>except Exception\<close> clauses catch is a value
    of \<open>py_exception\<close>.
\<close>

datatype object_type = MESH | OTHER string

text \<open>
  A vertex group of the host: its name and, for every vertex index, the weight assigned
  in this group. \<open>vg_weight g i = None\<close> is the case where \<^verbatim>\<open>g.weight(i)\<close> raises
  \<^verbatim>\<open>RuntimeError\<close> (the vertex is not in the group).
\<close>

record vertex_group =
  vg_name :: string
  vg_weight :: "nat \<rightharpoonup> real"

text \<open>
  \<open>obj_vertices\<close> is \<^verbatim>\<open>len(obj.data.vertices)\<close>; the vertices are \<open>0 ..< obj_vertices\<close>
  and \<^verbatim>\<open>v.index\<close> is the position. \<open>obj_vertex_groups\<close> is the collection
  \<^verbatim>\<open>obj.vertex_groups\<close> in its order.
\<close>

record mesh_object =
  obj_name :: string
  obj_type :: object_type
  obj_vertices :: nat
  obj_vertex_groups :: "vertex_group list"

text \<open>
  The \<^verbatim>\<open>validation\<close> entry of the document. \<^verbatim>\<open>list(set)\<close> has no order fixed
  by the source, so \<open>groups_with_weights\<close> stays a set. \<open>weight_range\<close> is the pair
  \<^verbatim>\<open>[min_weight, max_weight]\<close>.
\<close>

record validation_summary =
  vertices_with_weights :: nat
  groups_with_weights :: "string set"
  weight_range :: "real \<times> real"

text \<open>
  The parsed JSON object. The three keys that \<^verbatim>\<open>load_weights\<close> reads may be missing
  from a file written by hand (\<open>None\<close>); \<^verbatim>\<open>object_name\<close> and \<^verbatim>\<open>validation\<close> are
  never read back.
\<close>

record weight_data =
  object_name :: string
  vertex_count :: "int option"
  group_names :: "string list option"
  vertex_groups :: "(string \<times> (string \<times> real) list) list option"
  validation :: validation_summary

datatype file_content = Json weight_data | Malformed

text \<open>
  The file system: the files that exist with what they hold, and the paths that
  \<^verbatim>\<open>open(filepath, 'w')\<close> can open.
\<close>

record filesystem =
  files :: "string \<rightharpoonup> file_content"
  writable :: "string \<Rightarrow> bool"

datatype py_exception = KeyError string | ValueError string | JSONDecodeError | OSError

text \<open>
  The strings the two functions return, by kind: \<^verbatim>\<open>"No valid mesh selected"\<close>,
  \<^verbatim>\<open>"Weight file not found: ..."\<close>, \<^verbatim>\<open>"Vertex count mismatch: file has c, mesh has n"\<close>,
  \<^verbatim>\<open>"Error saving weights: ..."\<close> and \<^verbatim>\<open>"Error loading weights: ..."\<close>. All of
  them are non-empty, so the operators' \<^verbatim>\<open>if error:\<close> is the test for \<open>Some\<close>.
\<close>

datatype error =
    NoValidMesh
  | FileNotFound string
  | VertexCountMismatch int nat
  | SaveError py_exception
  | LoadError py_exception

section \<open>Python's \<^verbatim>\<open>str\<close> and \<^verbatim>\<open>int\<close> on vertex indices\<close>

definition digit_char :: "nat \<Rightarrow> char" where
  "digit_char d = char_of (48 + d)"

function py_str :: "nat \<Rightarrow> string" where
  "py_str n = (if n < 10 then [digit_char n] else py_str (n div 10) @ [digit_char (n mod 10)])"
  by pat_completeness auto
termination
  by (relation "measure id") auto

definition is_digit :: "char \<Rightarrow> bool" where
  "is_digit c = (48 \<le> (of_char c :: nat) \<and> (of_char c :: nat) \<le> 57)"

definition digit_val :: "char \<Rightarrow> nat" where
  "digit_val c = (of_char c :: nat) - 48"

text \<open>
  The white space that \<^verbatim>\<open>int\<close> drops around a literal. A character is its code point,
  below 256. On a string of ASCII characters these are the tab, the line feed, the
  vertical tab, the form feed, the carriage return and the space (9 to 13 and 32); the
  separators 28 to 31, which \<^verbatim>\<open>str.isspace\<close> accepts, are not among them:
  \<^verbatim>\<open>int\<close> of the character 28 followed by \<^verbatim>\<open>0\<close> raises \<^verbatim>\<open>ValueError\<close>. Beyond ASCII
  the two white-space characters of the range, U+0085 and U+00A0, are dropped as well:
  \<^verbatim>\<open>int\<close> of U+00A0 followed by \<^verbatim>\<open>5\<close> is 5.
\<close>

definition is_space :: "char \<Rightarrow> bool" where
  "is_space c = ((of_char c :: nat) \<in> {9, 10, 11, 12, 13, 32, 133, 160})"

text \<open>
  The digits of an integer literal: decimal digits, where a single underscore may stand
  between two digits.
\<close>

fun parse_digits :: "nat \<Rightarrow> string \<Rightarrow> nat option" where
  "parse_digits acc [] = Some acc"
| "parse_digits acc (c # cs) =
     (if c = CHR ''_'' then
        (case cs of [] \<Rightarrow> None
         | d # _ \<Rightarrow> if is_digit d then parse_digits acc cs else None)
      else if is_digit c then parse_digits (10 * acc + digit_val c) cs
      else None)"

definition parse_unsigned :: "string \<Rightarrow> nat option" where
  "parse_unsigned s =
     (case s of [] \<Rightarrow> None
      | c # _ \<Rightarrow> if is_digit c then parse_digits 0 s else None)"

definition strip :: "string \<Rightarrow> string" where
  "strip s = rev (dropWhile is_space (rev (dropWhile is_space s)))"

text \<open>
  \<^verbatim>\<open>int(s)\<close>: white space around the literal is dropped, a sign may lead, and
  anything else raises \<^verbatim>\<open>ValueError\<close> (\<open>None\<close>). The value has no bound. The
  interpreter's own bound on the length of a literal is kept apart, in
  \<open>within_digit_limit\<close> below.
\<close>

definition py_int :: "string \<Rightarrow> int option" where
  "py_int s =
     (case strip s of
        [] \<Rightarrow> None
      | c # cs \<Rightarrow>
          if c = CHR ''-'' then map_option (\<lambda>n. - int n) (parse_unsigned cs)
          else if c = CHR ''+'' then map_option int (parse_unsigned cs)
          else map_option int (parse_unsigned (c # cs)))"

text \<open>
  Interpreters from 3.11 on (and the later releases of 3.10) refuse, with
  \<^verbatim>\<open>ValueError\<close>, to convert a literal of more than \<^verbatim>\<open>sys.get_int_max_str_digits()\<close>
  digits, 4300 unless configured otherwise; underscores, sign and white space do not
  count. The decimal string of a vertex index is far shorter.
\<close>

definition int_max_str_digits :: nat where
  "int_max_str_digits = 4300"

definition within_digit_limit :: "string \<Rightarrow> bool" where
  "within_digit_limit s = (length (filter is_digit s) \<le> int_max_str_digits)"

section \<open>The host's vertex-group primitives\<close>

text \<open>
  Modelled from the spec: the host's mesh and vertex-group data provider is not part
  of the repository; the spec lists what it exposes (per-group weight lookup, group
  creation, removal and weight assignment). Group names are unique on an object, so a
  group is identified by its name.
\<close>

text \<open>\<^verbatim>\<open>name in obj.vertex_groups\<close>\<close>

definition vg_contains :: "vertex_group list \<Rightarrow> string \<Rightarrow> bool" where
  "vg_contains gs n = (n \<in> set (map vg_name gs))"

text \<open>\<^verbatim>\<open>obj.vertex_groups[name]\<close>; \<open>None\<close> is the \<^verbatim>\<open>KeyError\<close>.\<close>

definition vg_lookup :: "vertex_group list \<Rightarrow> string \<Rightarrow> vertex_group option" where
  "vg_lookup gs n = find (\<lambda>g. vg_name g = n) gs"

text \<open>\<^verbatim>\<open>obj.vertex_groups.remove(vg)\<close>\<close>

definition vg_remove :: "vertex_group list \<Rightarrow> vertex_group \<Rightarrow> vertex_group list" where
  "vg_remove gs vg = filter (\<lambda>g. vg_name g \<noteq> vg_name vg) gs"

text \<open>\<^verbatim>\<open>obj.vertex_groups.new(name=n)\<close>: a new group without any vertex, added last.\<close>

definition vg_new :: "vertex_group list \<Rightarrow> string \<Rightarrow> vertex_group list" where
  "vg_new gs n = gs @ [\<lparr>vg_name = n, vg_weight = Map.empty\<rparr>]"

text \<open>
  \<^verbatim>\<open>obj.vertex_groups[n].add([i], w, 'REPLACE')\<close> on a mesh of \<open>nv\<close> vertices: the
  weight of vertex \<open>i\<close> in the group named \<open>n\<close> becomes \<open>w\<close>; an index that is not a
  vertex of the mesh is ignored.
\<close>

definition vg_add :: "nat \<Rightarrow> vertex_group list \<Rightarrow> string \<Rightarrow> int \<Rightarrow> real \<Rightarrow> vertex_group list" where
  "vg_add nv gs n i w =
     (if 0 \<le> i \<and> i < int nv
      then map (\<lambda>g. if vg_name g = n then g\<lparr>vg_weight := (vg_weight g)(nat i \<mapsto> w)\<rparr> else g) gs
      else gs)"

section \<open>\<^verbatim>\<open>save_weights\<close>\<close>

text \<open>
  The inner loop of \<^verbatim>\<open>save_weights\<close> for one vertex \<open>v\<close>: the dictionary
  \<^verbatim>\<open>v_weights\<close>, filled group by group with the weights that are \<^verbatim>\<open>> 0.0\<close>.
\<close>

definition v_weights_step :: "nat \<Rightarrow> (string \<times> real) list \<Rightarrow> vertex_group \<Rightarrow> (string \<times> real) list" where
  "v_weights_step v d g =
     (case vg_weight g v of
        None \<Rightarrow> d
      | Some weight \<Rightarrow> if weight > 0 then AList.update (vg_name g) weight d else d)"

definition v_weights :: "vertex_group list \<Rightarrow> nat \<Rightarrow> (string \<times> real) list" where
  "v_weights gs v = foldl (v_weights_step v) [] gs"

text \<open>The outer loop: only the vertices whose \<^verbatim>\<open>v_weights\<close> is not empty get a key.\<close>

definition collect_step ::
  "vertex_group list \<Rightarrow> (string \<times> (string \<times> real) list) list \<Rightarrow> nat \<Rightarrow>
   (string \<times> (string \<times> real) list) list" where
  "collect_step gs m v =
     (let vw = v_weights gs v in if vw \<noteq> [] then AList.update (py_str v) vw m else m)"

definition collect_vertex_groups :: "mesh_object \<Rightarrow> (string \<times> (string \<times> real) list) list" where
  "collect_vertex_groups obj =
     foldl (collect_step (obj_vertex_groups obj)) [] [0 ..< obj_vertices obj]"

text \<open>
  The validation step: a second pass over the collected map, starting from
  \<^verbatim>\<open>max_weight = 0.0\<close> and \<^verbatim>\<open>min_weight = 1.0\<close>. The state is
  (groups with weights, max weight, min weight).
\<close>

definition validate_item :: "string set \<times> real \<times> real \<Rightarrow> string \<times> real \<Rightarrow> string set \<times> real \<times> real" where
  "validate_item st gw =
     (case st of (gset, mx, mn) \<Rightarrow> (insert (fst gw) gset, max mx (snd gw), min mn (snd gw)))"

definition validate_pass :: "(string \<times> (string \<times> real) list) list \<Rightarrow> string set \<times> real \<times> real" where
  "validate_pass m = foldl (\<lambda>st kv. foldl validate_item st (snd kv)) ({}, 0, 1) m"

definition make_weight_data :: "mesh_object \<Rightarrow> weight_data" where
  "make_weight_data obj =
     (let m = collect_vertex_groups obj in
      case validate_pass m of (gset, mx, mn) \<Rightarrow>
        \<lparr>object_name = obj_name obj,
         vertex_count = Some (int (obj_vertices obj)),
         group_names = Some (map vg_name (obj_vertex_groups obj)),
         vertex_groups = Some m,
         validation = \<lparr>vertices_with_weights = length m,
                       groups_with_weights = gset,
                       weight_range = (mn, mx)\<rparr>\<rparr>)"

text \<open>
  \<^verbatim>\<open>save_weights(obj, filepath)\<close> returns the error (or \<open>None\<close>) and the file system
  it leaves. \<^verbatim>\<open>not obj\<close> is the missing object.
\<close>

definition save_weights :: "mesh_object option \<Rightarrow> filesystem \<Rightarrow> string \<Rightarrow> error option \<times> filesystem" where
  "save_weights obj fs filepath =
     (case obj of
        None \<Rightarrow> (Some NoValidMesh, fs)
      | Some ob \<Rightarrow>
          if obj_type ob \<noteq> MESH then (Some NoValidMesh, fs)
          else if writable fs filepath
            then (None, fs\<lparr>files := (files fs)(filepath \<mapsto> Json (make_weight_data ob))\<rparr>)
            else (Some (SaveError OSError), fs))"

section \<open>\<^verbatim>\<open>load_weights\<close>\<close>

text \<open>
  \<^verbatim>\<open>for vg in obj.vertex_groups: obj.vertex_groups.remove(vg)\<close>. The loop visits the
  groups that the collection holds when it starts; removing the group just handed out
  does not disturb the host's iterator, which has moved on already.
\<close>

definition clear_groups :: "vertex_group list \<Rightarrow> vertex_group list" where
  "clear_groups gs = foldl vg_remove gs gs"

text \<open>\<^verbatim>\<open>for group_name in weight_data["group_names"]: if group_name not in ...: new\<close>\<close>

definition create_step :: "vertex_group list \<Rightarrow> string \<Rightarrow> vertex_group list" where
  "create_step gs group_name = (if \<not> vg_contains gs group_name then vg_new gs group_name else gs)"

definition create_groups :: "vertex_group list \<Rightarrow> string list \<Rightarrow> vertex_group list" where
  "create_groups gs names = foldl create_step gs names"

text \<open>
  The inner loop over \<^verbatim>\<open>groups.items()\<close> for the vertex index \<open>i\<close>. The state is the
  collection of groups and the counter \<^verbatim>\<open>vertices_affected\<close>; an exception comes back
  with the state reached so far.
\<close>

fun apply_groups ::
  "nat \<Rightarrow> int \<Rightarrow> (string \<times> real) list \<Rightarrow> vertex_group list \<times> nat \<Rightarrow>
   py_exception option \<times> vertex_group list \<times> nat" where
  "apply_groups nv i [] (gs, c) = (None, gs, c)"
| "apply_groups nv i ((group_name, weight) # rest) (gs, c) =
     (if weight > 0 then
        (case vg_lookup gs group_name of
           None \<Rightarrow> (Some (KeyError group_name), gs, c)
         | Some vgroup \<Rightarrow> apply_groups nv i rest (vg_add nv gs group_name i weight, c + 1))
      else apply_groups nv i rest (gs, c))"

text \<open>The outer loop over \<^verbatim>\<open>weight_data["vertex_groups"].items()\<close>.\<close>

fun apply_vertices ::
  "nat \<Rightarrow> (string \<times> (string \<times> real) list) list \<Rightarrow> vertex_group list \<times> nat \<Rightarrow>
   py_exception option \<times> vertex_group list \<times> nat" where
  "apply_vertices nv [] (gs, c) = (None, gs, c)"
| "apply_vertices nv ((vertex_idx_str, groups) # rest) (gs, c) =
     (case py_int vertex_idx_str of
        None \<Rightarrow> (Some (ValueError vertex_idx_str), gs, c)
      | Some vertex_idx \<Rightarrow>
          if vertex_idx < int nv then
            (case apply_groups nv vertex_idx groups (gs, c) of
               (Some e, st) \<Rightarrow> (Some e, st)
             | (None, st) \<Rightarrow> apply_vertices nv rest st)
          else apply_vertices nv rest (gs, c))"

text \<open>
  \<^verbatim>\<open>load_weights(obj, filepath)\<close> returns the error (or \<open>None\<close>), the object as it is
  left, and the number printed after \<^verbatim>\<open>Vertices affected:\<close> when the end is reached.
\<close>

definition load_weights ::
  "mesh_object option \<Rightarrow> filesystem \<Rightarrow> string \<Rightarrow> error option \<times> mesh_object option \<times> nat option" where
  "load_weights obj fs filepath =
     (case obj of
        None \<Rightarrow> (Some NoValidMesh, None, None)
      | Some ob \<Rightarrow>
          if obj_type ob \<noteq> MESH then (Some NoValidMesh, obj, None)
          else
            (case files fs filepath of
               None \<Rightarrow> (Some (FileNotFound filepath), obj, None)
             | Some Malformed \<Rightarrow> (Some (LoadError JSONDecodeError), obj, None)
             | Some (Json wd) \<Rightarrow>
                 if Some (int (obj_vertices ob)) \<noteq> vertex_count wd then
                   (case vertex_count wd of
                      None \<Rightarrow> (Some (LoadError (KeyError ''vertex_count'')), obj, None)
                    | Some n \<Rightarrow> (Some (VertexCountMismatch n (obj_vertices ob)), obj, None))
                 else
                   (let gs1 = clear_groups (obj_vertex_groups ob) in
                    case group_names wd of
                      None \<Rightarrow>
                        (Some (LoadError (KeyError ''group_names'')),
                         Some (ob\<lparr>obj_vertex_groups := gs1\<rparr>), None)
                    | Some names \<Rightarrow>
                        (let gs2 = create_groups gs1 names in
                         case vertex_groups wd of
                           None \<Rightarrow>
                             (Some (LoadError (KeyError ''vertex_groups'')),
                              Some (ob\<lparr>obj_vertex_groups := gs2\<rparr>), None)
                         | Some m \<Rightarrow>
                             (case apply_vertices (obj_vertices ob) m (gs2, 0) of
                                (Some e, gs3, c) \<Rightarrow>
                                  (Some (LoadError e), Some (ob\<lparr>obj_vertex_groups := gs3\<rparr>), None)
                              | (None, gs3, vertices_affected) \<Rightarrow>
                                  (None, Some (ob\<lparr>obj_vertex_groups := gs3\<rparr>),
                                   Some vertices_affected))))))"

section \<open>The Save operator\<close>

record WeightSyncSettings =
  weight_file :: string
  is_active :: bool

datatype report = ERROR error | INFO string

text \<open>
  What \<^verbatim>\<open>WEIGHTSYNC_OT_save.execute\<close> reads and changes: the scene's settings, the
  active object, the file system and the messages passed to \<^verbatim>\<open>self.report\<close>.
\<close>

record op_context =
  settings :: WeightSyncSettings
  active_object :: "mesh_object option"
  file_system :: filesystem
  reports :: "report list"

definition WEIGHTSYNC_OT_save_execute :: "string \<Rightarrow> op_context \<Rightarrow> op_context" where
  "WEIGHTSYNC_OT_save_execute filepath ctx =
     (case save_weights (active_object ctx) (file_system ctx) filepath of
        (Some err, fs') \<Rightarrow>
          ctx\<lparr>file_system := fs', reports := reports ctx @ [ERROR err]\<rparr>
      | (None, fs') \<Rightarrow>
          ctx\<lparr>settings := (settings ctx)\<lparr>weight_file := filepath, is_active := True\<rparr>,
              file_system := fs',
              reports := reports ctx @ [INFO (''Weights saved to '' @ filepath)]\<rparr>)"

section \<open>Auxiliary notions\<close>

text \<open>A string made of decimal digits only, as \<open>py_str\<close> produces.\<close>

definition digit_chars :: "string \<Rightarrow> bool" where
  "digit_chars s = list_all (\<lambda>c. \<exists>d<10. c = digit_char d) s"

text \<open>
  The vertices of an object that are in at least one of its groups: the vertices that
  carry a weight.
\<close>

definition vertices_with_weight :: "mesh_object \<Rightarrow> nat list" where
  "vertices_with_weight ob =
     filter (\<lambda>v. \<exists>g \<in> set (obj_vertex_groups ob). v \<in> dom (vg_weight g)) [0 ..< obj_vertices ob]"

text \<open>Concrete values for the examples below.\<close>

abbreviation example_mesh :: mesh_object where
  "example_mesh \<equiv>
     \<lparr>obj_name = ''Body'', obj_type = MESH, obj_vertices = 2,
      obj_vertex_groups = [\<lparr>vg_name = ''Old'', vg_weight = [0 \<mapsto> 1]\<rparr>]\<rparr>"

abbreviation example_summary :: validation_summary where
  "example_summary \<equiv>
     \<lparr>vertices_with_weights = 1, groups_with_weights = {''Arm''}, weight_range = (1/4, 1/2)\<rparr>"

abbreviation two_groups_document :: weight_data where
  "two_groups_document \<equiv>
     \<lparr>object_name = ''Body'', vertex_count = Some 2,
      group_names = Some [''Arm'', ''Leg''],
      vertex_groups = Some [(''0'', [(''Arm'', 1/2), (''Leg'', 1/4)])],
      validation = example_summary\<rparr>"

abbreviation two_groups_loaded :: mesh_object where
  "two_groups_loaded \<equiv>
     \<lparr>obj_name = ''Body'', obj_type = MESH, obj_vertices = 2,
      obj_vertex_groups = [\<lparr>vg_name = ''Arm'', vg_weight = [0 \<mapsto> 1/2]\<rparr>,
                           \<lparr>vg_name = ''Leg'', vg_weight = [0 \<mapsto> 1/4]\<rparr>]\<rparr>"

abbreviation holding :: "weight_data \<Rightarrow> filesystem" where
  "holding wd \<equiv> \<lparr>files = [''w.json'' \<mapsto> Json wd], writable = (\<lambda>p. True)\<rparr>"

abbreviation skipped_names_document :: weight_data where
  "skipped_names_document \<equiv>
     \<lparr>object_name = ''Body'', vertex_count = Some 2,
      group_names = Some [''Arm''],
      vertex_groups = Some [(''0'', [(''Arm'', 1/2), (''Leg'', 0)]), (''7'', [(''Tail'', 1/4)])],
      validation = example_summary\<rparr>"

abbreviation unknown_group_document :: weight_data where
  "unknown_group_document \<equiv>
     \<lparr>object_name = ''Body'', vertex_count = Some 2,
      group_names = Some [''Arm''],
      vertex_groups = Some [(''0'', [(''Arm'', 1/2), (''Leg'', 1/4)])],
      validation = example_summary\<rparr>"

abbreviation arm_loaded :: mesh_object where
  "arm_loaded \<equiv>
     \<lparr>obj_name = ''Body'', obj_type = MESH, obj_vertices = 2,
      obj_vertex_groups = [\<lparr>vg_name = ''Arm'', vg_weight = [0 \<mapsto> 1/2]\<rparr>]\<rparr>"

text \<open>
  \<^verbatim>\<open>obj.vertex_groups[n].weight(v)\<close> read off a collection of groups: \<open>None\<close> when the
  group does not exist or the vertex is not in it.
\<close>

definition weight_of :: "vertex_group list \<Rightarrow> string \<Rightarrow> nat \<Rightarrow> real option" where
  "weight_of gs n v = (case vg_lookup gs n of None \<Rightarrow> None | Some g \<Rightarrow> vg_weight g v)"

text \<open>
  What a document says about the pair of vertex \<open>v\<close> and group \<open>g\<close>: going through the
  entries in their order, each weight \<^verbatim>\<open>> 0.0\<close> given to \<open>g\<close> under a key that reads as
  \<open>v\<close> replaces the value before.
\<close>

definition group_pass :: "string \<Rightarrow> (string \<times> real) list \<Rightarrow> real option \<Rightarrow> real option" where
  "group_pass g l acc = foldl (\<lambda>a gw. if fst gw = g \<and> 0 < snd gw then Some (snd gw) else a) acc l"

definition doc_pass ::
  "(string \<times> (string \<times> real) list) list \<Rightarrow> string \<Rightarrow> nat \<Rightarrow> real option \<Rightarrow> real option" where
  "doc_pass m g v acc =
     foldl (\<lambda>a kl. if py_int (fst kl) = Some (int v) then group_pass g (snd kl) a else a) acc m"

text \<open>The entries of a document without those whose index is not below the vertex count.\<close>

definition in_bounds_entries ::
  "nat \<Rightarrow> (string \<times> (string \<times> real) list) list \<Rightarrow> (string \<times> (string \<times> real) list) list" where
  "in_bounds_entries nv m =
     filter (\<lambda>kl. case py_int (fst kl) of None \<Rightarrow> True | Some i \<Rightarrow> i < int nv) m"

text \<open>
  A document that \<open>load_weights\<close> can apply: every key reads as an integer, and in the
  entries below the vertex count every weight \<^verbatim>\<open>> 0.0\<close> is for a group of
  \<^verbatim>\<open>group_names\<close>.
\<close>

definition applicable :: "nat \<Rightarrow> string list \<Rightarrow> (string \<times> (string \<times> real) list) list \<Rightarrow> bool" where
  "applicable nv names m =
     list_all (\<lambda>kl. case py_int (fst kl) of
                       None \<Rightarrow> False
                     | Some i \<Rightarrow> i < int nv \<longrightarrow>
                         list_all (\<lambda>gw. 0 < snd gw \<longrightarrow> fst gw \<in> set names) (snd kl)) m"

abbreviation beyond_bounds_document :: weight_data where
  "beyond_bounds_document \<equiv>
     \<lparr>object_name = ''Body'', vertex_count = Some 2,
      group_names = Some [''Arm''],
      vertex_groups = Some [(''7'', [(''Tail'', 1/4)]), (''0'', [(''Arm'', 1/2)])],
      validation = example_summary\<rparr>"

abbreviation within_bounds_document :: weight_data where
  "within_bounds_document \<equiv>
     \<lparr>object_name = ''Body'', vertex_count = Some 2,
      group_names = Some [''Arm''],
      vertex_groups = Some [(''0'', [(''Arm'', 1/2)])],
      validation = example_summary\<rparr>"

text \<open>
  The weight of vertex \<open>v\<close> in group \<open>g\<close> as the exporter keeps it: the weight when it is
  \<^verbatim>\<open>> 0.0\<close>, nothing when it is not or when the vertex is not in the group.
\<close>

definition stored_weight :: "vertex_group \<Rightarrow> nat \<Rightarrow> real option" where
  "stored_weight g v =
     (case vg_weight g v of None \<Rightarrow> None | Some w \<Rightarrow> if 0 < w then Some w else None)"

text \<open>
  The entry of a document for the pair of vertex \<open>v\<close> and group \<open>n\<close>, by dictionary
  lookup: \<^verbatim>\<open>vertex_groups[str(v)][n]\<close>, \<open>None\<close> when either key is missing.
\<close>

definition document_entry ::
  "(string \<times> (string \<times> real) list) list \<Rightarrow> nat \<Rightarrow> string \<Rightarrow> real option" where
  "document_entry m v n =
     (case map_of m (py_str v) of None \<Rightarrow> None | Some d \<Rightarrow> map_of d n)"

abbreviation source_mesh :: mesh_object where
  "source_mesh \<equiv>
     \<lparr>obj_name = ''Body'', obj_type = MESH, obj_vertices = 2,
      obj_vertex_groups = [\<lparr>vg_name = ''Arm'', vg_weight = [0 \<mapsto> 1/2, 1 \<mapsto> 0]\<rparr>]\<rparr>"

section \<open>Basic facts\<close>

declare py_str.simps [simp del]

lemma digit_char_0: "digit_char 0 = CHR ''0''"
  unfolding digit_char_def by code_simp

lemma py_str_0: "py_str 0 = ''0''"
  by (simp add: py_str.simps digit_char_0)

subsection \<open>Decimal strings\<close>

lemma digit_char_props:
  assumes "d < 10"
  shows "is_digit (digit_char d)" and "digit_val (digit_char d) = d"
    and "digit_char d \<noteq> CHR ''_''" and "digit_char d \<noteq> CHR ''-''"
    and "digit_char d \<noteq> CHR ''+''" and "\<not> is_space (digit_char d)"
proof -
  have oc: "(of_char (digit_char d) :: nat) = 48 + d"
    using assms by (simp add: digit_char_def)
  show "is_digit (digit_char d)" using assms by (simp add: is_digit_def oc)
  show "digit_val (digit_char d) = d" by (simp add: digit_val_def oc)
  have "(of_char (digit_char d) :: nat) \<noteq> of_char (CHR ''_'')" using assms by (simp add: oc)
  then show "digit_char d \<noteq> CHR ''_''" by metis
  have "(of_char (digit_char d) :: nat) \<noteq> of_char (CHR ''-'')" using assms by (simp add: oc)
  then show "digit_char d \<noteq> CHR ''-''" by metis
  have "(of_char (digit_char d) :: nat) \<noteq> of_char (CHR ''+'')" using assms by (simp add: oc)
  then show "digit_char d \<noteq> CHR ''+''" by metis
  show "\<not> is_space (digit_char d)" using assms by (simp add: is_space_def oc)
qed

lemma py_str_digit_chars: "digit_chars (py_str n)"
proof (induction n rule: py_str.induct)
  case (1 n)
  show ?case
  proof (cases "n < 10")
    case True
    then show ?thesis by (subst py_str.simps) (auto simp: digit_chars_def)
  next
    case False
    have "\<exists>d<10. digit_char (n mod 10) = digit_char d"
      by (rule exI [of _ "n mod 10"]) simp
    with False 1 show ?thesis
      by (subst py_str.simps) (simp add: digit_chars_def)
  qed
qed

lemma py_str_nonempty: "py_str n \<noteq> []"
  by (subst py_str.simps) simp

lemma parse_digits_digit_chars:
  "digit_chars s \<Longrightarrow> parse_digits acc s = Some (foldl (\<lambda>a c. 10 * a + digit_val c) acc s)"
proof (induction s arbitrary: acc)
  case Nil
  then show ?case by simp
next
  case (Cons c s)
  then obtain d where d: "d < 10" "c = digit_char d" and s: "digit_chars s"
    by (auto simp: digit_chars_def)
  show ?case
    using Cons.IH [OF s] d by (simp add: digit_char_props)
qed

lemma decimal_value_py_str: "foldl (\<lambda>a c. 10 * a + digit_val c) 0 (py_str n) = n"
proof (induction n rule: py_str.induct)
  case (1 n)
  show ?case
  proof (cases "n < 10")
    case True
    then show ?thesis by (subst py_str.simps) (simp add: digit_char_props)
  next
    case False
    have "n mod 10 < 10" by simp
    then have "digit_val (digit_char (n mod 10)) = n mod 10" by (rule digit_char_props)
    with False 1 show ?thesis
      by (subst py_str.simps) simp
  qed
qed

lemma strip_digit_chars: "digit_chars s \<Longrightarrow> strip s = s"
proof -
  assume a: "digit_chars s"
  have ns: "\<forall>c \<in> set s. \<not> is_space c"
    using a by (auto simp: digit_chars_def list_all_iff digit_char_props)
  have d: "dropWhile is_space xs = xs" if "\<forall>c \<in> set xs. \<not> is_space c" for xs
    using that by (cases xs) auto
  show ?thesis
    using ns by (simp add: strip_def d)
qed

lemma py_int_py_str: "py_int (py_str n) = Some (int n)"
proof -
  have dc: "digit_chars (py_str n)" by (rule py_str_digit_chars)
  obtain c cs where s: "py_str n = c # cs"
    using py_str_nonempty [of n] by (cases "py_str n") auto
  from dc s obtain d where d: "d < 10" "c = digit_char d"
    by (auto simp: digit_chars_def)
  have pu: "parse_unsigned (py_str n) = Some n"
    using parse_digits_digit_chars [OF dc, of 0] decimal_value_py_str [of n] s d
    by (simp add: parse_unsigned_def digit_char_props)
  have st: "strip (c # cs) = c # cs"
    using strip_digit_chars [OF dc] s by simp
  have sg: "c \<noteq> CHR ''-''" "c \<noteq> CHR ''+''"
    using d by (simp_all add: digit_char_props)
  have "py_int (c # cs) = Some (int n)"
    using pu unfolding s by (simp add: py_int_def st sg)
  then show ?thesis by (simp add: s)
qed

lemma py_str_inject: "py_str m = py_str n \<Longrightarrow> m = n"
proof -
  assume "py_str m = py_str n"
  then have "py_int (py_str m) = py_int (py_str n)" by (rule arg_cong)
  then show "m = n" by (simp only: py_int_py_str option.inject of_nat_eq_iff)
qed

section \<open>Claims about the rejection of a mismatching document\<close>

text \<open>
  C2: for a mesh object and a parseable document whose recorded \<^verbatim>\<open>vertex_count\<close>
  differs from the number of vertices of the mesh, \<open>load_weights\<close> reports the
  vertex-count mismatch and hands back the object exactly as it was: no group is
  removed, created or reweighted.
\<close>

theorem load_weights_mismatch_unmodified:
  assumes "obj_type ob = MESH"
    and "files fs filepath = Some (Json wd)"
    and "vertex_count wd = Some n"
    and "n \<noteq> int (obj_vertices ob)"
  shows "load_weights (Some ob) fs filepath =
           (Some (VertexCountMismatch n (obj_vertices ob)), Some ob, None)"
  using assms by (auto simp: load_weights_def)

theorem load_weights_mismatch_unmodified_witness:
  "load_weights
     (Some \<lparr>obj_name = ''Body'', obj_type = MESH, obj_vertices = 2,
            obj_vertex_groups = [\<lparr>vg_name = ''Leg'', vg_weight = [0 \<mapsto> 1]\<rparr>]\<rparr>)
     \<lparr>files = [''w.json'' \<mapsto> Json \<lparr>object_name = ''Body'', vertex_count = Some 3,
                 group_names = Some [''Arm''], vertex_groups = Some [(''0'', [(''Arm'', 1/2)])],
                 validation = \<lparr>vertices_with_weights = 1, groups_with_weights = {''Arm''},
                               weight_range = (1/2, 1/2)\<rparr>\<rparr>],
      writable = (\<lambda>p. True)\<rparr>
     ''w.json'' =
   (Some (VertexCountMismatch 3 2),
    Some \<lparr>obj_name = ''Body'', obj_type = MESH, obj_vertices = 2,
           obj_vertex_groups = [\<lparr>vg_name = ''Leg'', vg_weight = [0 \<mapsto> 1]\<rparr>]\<rparr>,
    None)"
  using load_weights_mismatch_unmodified
    [of "\<lparr>obj_name = ''Body'', obj_type = MESH, obj_vertices = 2,
           obj_vertex_groups = [\<lparr>vg_name = ''Leg'', vg_weight = [0 \<mapsto> 1]\<rparr>]\<rparr>"
        "\<lparr>files = [''w.json'' \<mapsto> Json \<lparr>object_name = ''Body'', vertex_count = Some 3,
                 group_names = Some [''Arm''], vertex_groups = Some [(''0'', [(''Arm'', 1/2)])],
                 validation = \<lparr>vertices_with_weights = 1, groups_with_weights = {''Arm''},
                               weight_range = (1/2, 1/2)\<rparr>\<rparr>],
          writable = (\<lambda>p. True)\<rparr>"
        "''w.json''" _ 3]
  by simp

section \<open>Claims about the worked example of the exporter\<close>

text \<open>
  C8: on a mesh of 3 vertices with the single group \<^verbatim>\<open>"Arm"\<close>, where vertex 0 has
  weight 0.5 and vertices 1 and 2 have no nonzero weight (weight 0, or not in the group),
  \<open>save_weights\<close> writes a document whose \<^verbatim>\<open>vertex_groups\<close> is
  \<^verbatim>\<open>{"0": {"Arm": 0.5}}\<close> and whose \<^verbatim>\<open>validation.weight_range\<close> is \<^verbatim>\<open>[0.5, 0.5]\<close>.
\<close>

theorem save_weights_example:
  assumes "ws 0 = Some (1/2)" and "ws 1 \<in> {None, Some 0}" and "ws 2 \<in> {None, Some 0}"
    and "writable fs filepath"
  shows "(let obj = \<lparr>obj_name = nm, obj_type = MESH, obj_vertices = 3,
                     obj_vertex_groups = [\<lparr>vg_name = ''Arm'', vg_weight = ws\<rparr>]\<rparr>;
              wd = make_weight_data obj
          in save_weights (Some obj) fs filepath =
               (None, fs\<lparr>files := (files fs)(filepath \<mapsto> Json wd)\<rparr>)
           \<and> vertex_groups wd = Some [(''0'', [(''Arm'', 1/2)])]
           \<and> weight_range (validation wd) = (1/2, 1/2))"
proof -
  have u: "[0 ..< 3] = [0, Suc 0, 2::nat]" by (simp add: upt_rec)
  have v0: "v_weights [\<lparr>vg_name = ''Arm'', vg_weight = ws\<rparr>] 0 = [(''Arm'', 1/2)]"
    using assms(1) by (simp add: v_weights_def v_weights_step_def)
  have v1: "v_weights [\<lparr>vg_name = ''Arm'', vg_weight = ws\<rparr>] (Suc 0) = []"
    using assms(2) by (auto simp: v_weights_def v_weights_step_def)
  have v2: "v_weights [\<lparr>vg_name = ''Arm'', vg_weight = ws\<rparr>] 2 = []"
    using assms(3) by (auto simp: v_weights_def v_weights_step_def)
  have c: "collect_vertex_groups \<lparr>obj_name = nm, obj_type = MESH, obj_vertices = 3,
              obj_vertex_groups = [\<lparr>vg_name = ''Arm'', vg_weight = ws\<rparr>]\<rparr> =
            [(''0'', [(''Arm'', 1/2)])]"
    by (simp add: collect_vertex_groups_def collect_step_def u v0 v1 v2 py_str_0)
  show ?thesis
    using assms(4)
    by (simp add: save_weights_def make_weight_data_def c validate_pass_def
        validate_item_def Let_def)
qed

theorem save_weights_example_witness:
  "(let obj = \<lparr>obj_name = ''Body'', obj_type = MESH, obj_vertices = 3,
               obj_vertex_groups =
                 [\<lparr>vg_name = ''Arm'', vg_weight = [0 \<mapsto> 1/2, 1 \<mapsto> 0]\<rparr>]\<rparr>;
        fs = \<lparr>files = Map.empty, writable = (\<lambda>p. True)\<rparr>;
        wd = make_weight_data obj
    in save_weights (Some obj) fs ''weights.json'' =
         (None, fs\<lparr>files := (files fs)(''weights.json'' \<mapsto> Json wd)\<rparr>)
     \<and> vertex_groups wd = Some [(''0'', [(''Arm'', 1/2)])]
     \<and> weight_range (validation wd) = (1/2, 1/2))"
  using save_weights_example [of "[0 \<mapsto> 1/2, 1 \<mapsto> 0]"
      "\<lparr>files = Map.empty, writable = (\<lambda>p. True)\<rparr>" "''weights.json''" "''Body''"]
  by (simp add: Let_def)

section \<open>Claims about the Save operator\<close>

text \<open>
  C9: when the exporter succeeds, the Save operator sets \<^verbatim>\<open>weight_file\<close> to the chosen
  path and \<^verbatim>\<open>is_active\<close> to true; when the exporter fails, the error is reported and
  the settings (both fields) stay as they were.
\<close>

theorem save_execute_settings:
  "(case save_weights (active_object ctx) (file_system ctx) filepath of
      (None, fs') \<Rightarrow>
        weight_file (settings (WEIGHTSYNC_OT_save_execute filepath ctx)) = filepath
        \<and> is_active (settings (WEIGHTSYNC_OT_save_execute filepath ctx))
    | (Some err, fs') \<Rightarrow>
        settings (WEIGHTSYNC_OT_save_execute filepath ctx) = settings ctx
        \<and> reports (WEIGHTSYNC_OT_save_execute filepath ctx) = reports ctx @ [ERROR err])"
  by (simp add: WEIGHTSYNC_OT_save_execute_def split: prod.splits option.splits)

subsection \<open>What the exporter collects\<close>

lemma set_update_cases:
  "p \<in> set (AList.update k v al) \<Longrightarrow> p = (k, v) \<or> p \<in> set al"
  by (induction al) (auto split: if_splits)

text \<open>Every entry of \<open>v_weights\<close> is the positive weight of one of the groups.\<close>

lemma foldl_v_weights_step_entries:
  assumes "(n, w) \<in> set (foldl (v_weights_step v) d gs)"
  shows "(n, w) \<in> set d \<or> (\<exists>g \<in> set gs. vg_name g = n \<and> vg_weight g v = Some w \<and> 0 < w)"
  using assms
proof (induction gs arbitrary: d)
  case Nil
  then show ?case by simp
next
  case (Cons g gs)
  from Cons.prems have
    "(n, w) \<in> set (foldl (v_weights_step v) (v_weights_step v d g) gs)" by simp
  from Cons.IH [OF this] show ?case
  proof
    assume "(n, w) \<in> set (v_weights_step v d g)"
    then show ?thesis
      by (auto simp: v_weights_step_def split: option.splits if_splits dest: set_update_cases)
  next
    assume "\<exists>g \<in> set gs. vg_name g = n \<and> vg_weight g v = Some w \<and> 0 < w"
    then show ?thesis by auto
  qed
qed

lemma v_weights_entries:
  "(n, w) \<in> set (v_weights gs v) \<Longrightarrow>
     \<exists>g \<in> set gs. vg_name g = n \<and> vg_weight g v = Some w \<and> 0 < w"
  using foldl_v_weights_step_entries [of n w v "[]" gs] by (simp add: v_weights_def)

lemma foldl_collect_step_entries:
  assumes "(k, d) \<in> set (foldl (collect_step gs) m vs)"
  shows "(k, d) \<in> set m \<or> (\<exists>v \<in> set vs. k = py_str v \<and> d = v_weights gs v \<and> d \<noteq> [])"
  using assms
proof (induction vs arbitrary: m)
  case Nil
  then show ?case by simp
next
  case (Cons v vs)
  from Cons.prems have "(k, d) \<in> set (foldl (collect_step gs) (collect_step gs m v) vs)"
    by simp
  from Cons.IH [OF this] show ?case
  proof
    assume "(k, d) \<in> set (collect_step gs m v)"
    then show ?thesis
      by (auto simp: collect_step_def Let_def split: if_splits dest: set_update_cases)
  next
    assume "\<exists>v \<in> set vs. k = py_str v \<and> d = v_weights gs v \<and> d \<noteq> []"
    then show ?thesis by auto
  qed
qed

lemma collect_vertex_groups_entries:
  assumes "(k, d) \<in> set (collect_vertex_groups ob)"
  shows "\<exists>v < obj_vertices ob. k = py_str v \<and> d = v_weights (obj_vertex_groups ob) v \<and> d \<noteq> []"
  using foldl_collect_step_entries [of k d "obj_vertex_groups ob" "[]" "[0 ..< obj_vertices ob]"] assms
  by (auto simp: collect_vertex_groups_def)

lemma vertex_groups_make_weight_data:
  "vertex_groups (make_weight_data ob) = Some (collect_vertex_groups ob)"
  by (simp add: make_weight_data_def Let_def split: prod.splits)

lemma save_weights_success:
  assumes "save_weights (Some ob) fs filepath = (None, fs')"
  shows "obj_type ob = MESH" and "writable fs filepath"
    and "fs' = fs\<lparr>files := (files fs)(filepath \<mapsto> Json (make_weight_data ob))\<rparr>"
  using assms by (auto simp: save_weights_def split: if_splits)

section \<open>Claims about the sparse encoding\<close>

text \<open>
  C3: every weight stored in the document that \<open>save_weights\<close> writes is strictly
  greater than 0, and a vertex to which no group gives a weight greater than 0 (all its
  weights are zero or absent) is not a key of the document's \<^verbatim>\<open>vertex_groups\<close> map.
\<close>

theorem save_weights_sparse_positive:
  assumes "save_weights (Some ob) fs filepath = (None, fs')"
  shows "\<exists>wd m. files fs' filepath = Some (Json wd) \<and> vertex_groups wd = Some m
           \<and> (\<forall>(k, d) \<in> set m. \<forall>(g, w) \<in> set d. 0 < w)
           \<and> (\<forall>v. (\<forall>g \<in> set (obj_vertex_groups ob). \<forall>w. vg_weight g v = Some w \<longrightarrow> w \<le> 0)
                  \<longrightarrow> py_str v \<notin> fst ` set m)"
proof -
  let ?m = "collect_vertex_groups ob"
  have f: "files fs' filepath = Some (Json (make_weight_data ob))"
    using save_weights_success(3) [OF assms] by simp
  have pos: "\<forall>(k, d) \<in> set ?m. \<forall>(g, w) \<in> set d. 0 < w"
  proof (clarify)
    fix k d g w
    assume "(k, d) \<in> set ?m" and gw: "(g, w) \<in> set d"
    then have "d = v_weights (obj_vertex_groups ob) (SOME v. d = v_weights (obj_vertex_groups ob) v)"
      using collect_vertex_groups_entries by (metis (mono_tags, lifting) someI_ex)
    with gw v_weights_entries show "0 < w" by metis
  qed
  have sparse: "py_str v \<notin> fst ` set ?m"
    if z: "\<forall>g \<in> set (obj_vertex_groups ob). \<forall>w. vg_weight g v = Some w \<longrightarrow> w \<le> 0" for v
  proof
    assume "py_str v \<in> fst ` set ?m"
    then obtain d where "(py_str v, d) \<in> set ?m" by auto
    from collect_vertex_groups_entries [OF this] obtain v'
      where v': "py_str v = py_str v'" "d = v_weights (obj_vertex_groups ob) v'" "d \<noteq> []"
      by auto
    from v'(1) have "v' = v" by (simp add: py_str_inject)
    with v' have "v_weights (obj_vertex_groups ob) v \<noteq> []" by simp
    then obtain n w where "(n, w) \<in> set (v_weights (obj_vertex_groups ob) v)"
      by (cases "v_weights (obj_vertex_groups ob) v") auto
    from v_weights_entries [OF this] z show False by fastforce
  qed
  show ?thesis
    using f pos sparse vertex_groups_make_weight_data by blast
qed

theorem save_weights_sparse_positive_witness:
  "(let ob = \<lparr>obj_name = ''Body'', obj_type = MESH, obj_vertices = 2,
              obj_vertex_groups =
                [\<lparr>vg_name = ''Arm'', vg_weight = [0 \<mapsto> 1/2, 1 \<mapsto> 0]\<rparr>]\<rparr>;
        fs = \<lparr>files = Map.empty, writable = (\<lambda>p. True)\<rparr>;
        fs' = fs\<lparr>files := (files fs)(''w.json'' \<mapsto> Json (make_weight_data ob))\<rparr>
    in save_weights (Some ob) fs ''w.json'' = (None, fs')
     \<and> vertex_groups (make_weight_data ob) = Some [(''0'', [(''Arm'', 1/2)])]
     \<and> (0::real) < 1/2
     \<and> py_str 1 \<notin> fst ` set [(''0'', [(''Arm'', 1/2 :: real)])])"
proof -
  let ?ob = "\<lparr>obj_name = ''Body'', obj_type = MESH, obj_vertices = 2,
        obj_vertex_groups =
          [\<lparr>vg_name = ''Arm'', vg_weight = [0 \<mapsto> 1/2, (1::nat) \<mapsto> (0::real)]\<rparr>]\<rparr>"
  let ?fs = "\<lparr>files = Map.empty, writable = (\<lambda>p. True)\<rparr> :: filesystem"
  let ?fs' = "?fs\<lparr>files := (files ?fs)(''w.json'' \<mapsto> Json (make_weight_data ?ob))\<rparr>"
  have s: "save_weights (Some ?ob) ?fs ''w.json'' = (None, ?fs')"
    by (simp add: save_weights_def)
  have u: "[0 ..< 2] = [0, Suc 0]" by (simp add: upt_rec)
  have c: "collect_vertex_groups ?ob = [(''0'', [(''Arm'', 1/2)])]"
    by (simp add: collect_vertex_groups_def collect_step_def u v_weights_def
        v_weights_step_def py_str_0)
  have z: "\<forall>g \<in> set (obj_vertex_groups ?ob). \<forall>w. vg_weight g 1 = Some w \<longrightarrow> w \<le> 0"
    by simp
  from save_weights_sparse_positive [OF s] obtain wd m
    where wd: "files ?fs' ''w.json'' = Some (Json wd)" and m: "vertex_groups wd = Some m"
      and pos: "\<forall>(k, d) \<in> set m. \<forall>(g, w) \<in> set d. 0 < w"
      and sp: "\<forall>v. (\<forall>g \<in> set (obj_vertex_groups ?ob). \<forall>w. vg_weight g v = Some w \<longrightarrow> w \<le> 0)
                  \<longrightarrow> py_str v \<notin> fst ` set m"
    by blast
  from wd have wdeq: "wd = make_weight_data ?ob" by simp
  have "vertex_groups wd = Some [(''0'', [(''Arm'', 1/2)])]"
    unfolding wdeq vertex_groups_make_weight_data c ..
  with m have mc: "m = [(''0'', [(''Arm'', 1/2)])]" by simp
  from pos have p: "(0::real) < 1/2" unfolding mc by simp
  from sp z have q: "py_str 1 \<notin> fst ` set m" by blast
  show ?thesis
    unfolding Let_def using s p q [unfolded mc] vertex_groups_make_weight_data [of ?ob] c
    by simp
qed

subsection \<open>Clearing and creating groups\<close>

lemma foldl_vg_remove:
  "foldl vg_remove xs ys = filter (\<lambda>g. vg_name g \<notin> vg_name ` set ys) xs"
proof (induction ys arbitrary: xs)
  case Nil
  then show ?case by simp
next
  case (Cons y ys)
  show ?case
    using Cons.IH [of "vg_remove xs y"] by (simp add: vg_remove_def conj_commute)
qed

lemma clear_groups_empty: "clear_groups gs = []"
  by (simp add: clear_groups_def foldl_vg_remove)

lemma names_create_step:
  "map vg_name (create_step gs n) =
     (if n \<in> set (map vg_name gs) then map vg_name gs else map vg_name gs @ [n])"
  by (simp add: create_step_def vg_contains_def vg_new_def)

lemma set_names_create_groups:
  "set (map vg_name (create_groups gs names)) = set (map vg_name gs) \<union> set names"
  unfolding create_groups_def
proof (induction names arbitrary: gs)
  case Nil
  then show ?case by simp
next
  case (Cons n names)
  have "set (map vg_name (create_step gs n)) = insert n (set (map vg_name gs))"
    by (auto simp: names_create_step)
  then show ?case
    using Cons.IH [of "create_step gs n"] by simp
qed

lemma distinct_names_create_groups:
  "distinct (map vg_name gs) \<Longrightarrow> distinct (map vg_name (create_groups gs names))"
  unfolding create_groups_def
proof (induction names arbitrary: gs)
  case Nil
  then show ?case by simp
next
  case (Cons n names)
  have "distinct (map vg_name (create_step gs n))"
    using Cons.prems by (simp add: names_create_step)
  then show ?case
    using Cons.IH [of "create_step gs n"] by simp
qed

subsection \<open>Applying weights keeps the collection's names\<close>

lemma names_vg_add: "map vg_name (vg_add nv gs n i w) = map vg_name gs"
  by (simp add: vg_add_def comp_def)

lemma vg_lookup_None: "vg_lookup gs n = None \<longleftrightarrow> \<not> vg_contains gs n"
  by (auto simp: vg_lookup_def vg_contains_def find_None_iff)

lemma vg_contains_names: "map vg_name gs' = map vg_name gs \<Longrightarrow> vg_contains gs' n = vg_contains gs n"
  by (simp add: vg_contains_def)

lemma names_apply_groups_aux:
  "apply_groups nv i l st = (e, gs', c') \<Longrightarrow> map vg_name gs' = map vg_name (fst st)"
proof (induction nv i l st rule: apply_groups.induct)
  case (1 nv i gs c)
  then show ?case by simp
next
  case (2 nv i group_name weight rest gs c)
  show ?case
  proof (cases "0 < weight")
    case False
    with 2 show ?thesis by simp
  next
    case True
    show ?thesis
    proof (cases "vg_lookup gs group_name")
      case None
      with True 2 show ?thesis by simp
    next
      case (Some vgroup)
      with True "2.prems" have
        "apply_groups nv i rest (vg_add nv gs group_name i weight, c + 1) = (e, gs', c')"
        by simp
      from "2.IH"(1) [OF True Some this] show ?thesis
        by (simp add: names_vg_add)
    qed
  qed
qed

lemma names_apply_groups:
  "apply_groups nv i l (gs, c) = (e, gs', c') \<Longrightarrow> map vg_name gs' = map vg_name gs"
  using names_apply_groups_aux [of nv i l "(gs, c)"] by simp

lemma names_apply_vertices_aux:
  "apply_vertices nv m st = (e, gs', c') \<Longrightarrow> map vg_name gs' = map vg_name (fst st)"
proof (induction nv m st rule: apply_vertices.induct)
  case (1 nv gs c)
  then show ?case by simp
next
  case (2 nv vertex_idx_str groups rest gs c)
  show ?case
  proof (cases "py_int vertex_idx_str")
    case None
    with 2 show ?thesis by simp
  next
    case (Some vertex_idx)
    show ?thesis
    proof (cases "vertex_idx < int nv")
      case False
      with Some 2 show ?thesis by simp
    next
      case True
      obtain e1 gs1 c1 where a: "apply_groups nv vertex_idx groups (gs, c) = (e1, gs1, c1)"
        by (cases "apply_groups nv vertex_idx groups (gs, c)") auto
      have n1: "map vg_name gs1 = map vg_name gs" by (rule names_apply_groups [OF a])
      show ?thesis
      proof (cases e1)
        case None
        with Some True a "2.prems" have "apply_vertices nv rest (gs1, c1) = (e, gs', c')"
          by simp
        from "2.IH"(1) [OF Some True a [unfolded None, symmetric] refl this] n1 show ?thesis
          by simp
      next
        case (Some ex)
        with \<open>py_int vertex_idx_str = Some vertex_idx\<close> True a "2.prems" n1 show ?thesis
          by simp
      qed
    qed
  qed
qed

lemma names_apply_vertices:
  "apply_vertices nv m (gs, c) = (e, gs', c') \<Longrightarrow> map vg_name gs' = map vg_name gs"
  using names_apply_vertices_aux [of nv m "(gs, c)"] by simp

subsection \<open>The shape of \<open>load_weights\<close> on an accepted document\<close>

lemma load_weights_accepted:
  assumes "obj_type ob = MESH" and "files fs filepath = Some (Json wd)"
    and "vertex_count wd = Some (int (obj_vertices ob))"
    and "group_names wd = Some names" and "vertex_groups wd = Some m"
  shows "load_weights (Some ob) fs filepath =
           (case apply_vertices (obj_vertices ob) m (create_groups [] names, 0) of
              (Some e, gs3, c) \<Rightarrow>
                (Some (LoadError e), Some (ob\<lparr>obj_vertex_groups := gs3\<rparr>), None)
            | (None, gs3, c) \<Rightarrow> (None, Some (ob\<lparr>obj_vertex_groups := gs3\<rparr>), Some c))"
  using assms by (simp add: load_weights_def clear_groups_empty)

text \<open>
  Once the document is accepted, nothing of the groups that the object had is read:
  the outcome is the one for the object without any group.
\<close>

lemma load_weights_forgets_groups:
  assumes "obj_type ob = MESH" and "files fs filepath = Some (Json wd)"
    and "vertex_count wd = Some (int (obj_vertices ob))"
  shows "load_weights (Some (ob\<lparr>obj_vertex_groups := gs\<rparr>)) fs filepath =
         load_weights (Some ob) fs filepath"
  using assms
  by (simp add: load_weights_def clear_groups_empty Let_def split: option.splits prod.splits)

lemma load_weights_rejected:
  assumes "\<not> (obj_type ob = MESH \<and> (\<exists>wd. files fs filepath = Some (Json wd)
              \<and> vertex_count wd = Some (int (obj_vertices ob))))"
  shows "fst (snd (load_weights (Some ob) fs filepath)) = Some ob"
  using assms
  by (auto simp: load_weights_def split: option.splits file_content.splits)

lemma load_weights_result_object:
  assumes "obj_type ob = MESH" and "files fs filepath = Some (Json wd)"
    and "vertex_count wd = Some (int (obj_vertices ob))"
  shows "\<exists>gs. fst (snd (load_weights (Some ob) fs filepath)) = Some (ob\<lparr>obj_vertex_groups := gs\<rparr>)"
  using assms
  by (auto simp: load_weights_def Let_def split: option.splits prod.splits)

subsection \<open>Successful imports, and two evaluations\<close>

lemma load_weights_success_cases:
  assumes "load_weights (Some ob) fs filepath = (None, r, c)"
    and "files fs filepath = Some (Json wd)"
  obtains names m gs3 n where "obj_type ob = MESH"
    and "vertex_count wd = Some (int (obj_vertices ob))"
    and "group_names wd = Some names" and "vertex_groups wd = Some m"
    and "apply_vertices (obj_vertices ob) m (create_groups [] names, 0) = (None, gs3, n)"
    and "r = Some (ob\<lparr>obj_vertex_groups := gs3\<rparr>)" and "c = Some n"
proof -
  from assms have t: "obj_type ob = MESH"
    by (auto simp: load_weights_def split: if_splits)
  from assms t have vc: "vertex_count wd = Some (int (obj_vertices ob))"
    by (auto simp: load_weights_def split: if_splits option.splits)
  from assms t vc obtain names where gn: "group_names wd = Some names"
    by (cases "group_names wd") (auto simp: load_weights_def clear_groups_empty)
  from assms t vc gn obtain m where vg: "vertex_groups wd = Some m"
    by (cases "vertex_groups wd") (auto simp: load_weights_def clear_groups_empty)
  obtain e1 gs3 n
    where a: "apply_vertices (obj_vertices ob) m (create_groups [] names, 0) = (e1, gs3, n)"
    by (cases "apply_vertices (obj_vertices ob) m (create_groups [] names, 0)") auto
  from assms(1) have e1: "e1 = None" and r: "r = Some (ob\<lparr>obj_vertex_groups := gs3\<rparr>)"
    and c: "c = Some n"
    unfolding load_weights_accepted [OF t assms(2) vc gn vg] a
    by (cases e1; simp)+
  from that [OF t vc gn vg a [unfolded e1] r c] show thesis .
qed

lemma py_int_0: "py_int ''0'' = Some 0"
  using py_int_py_str [of 0] by (simp add: py_str_0)

lemma py_int_7: "py_int ''7'' = Some 7"
  by (simp add: py_int_def strip_def is_space_def parse_unsigned_def is_digit_def digit_val_def)

lemmas load_eval =
  load_weights_def clear_groups_def vg_remove_def create_groups_def create_step_def
  vg_contains_def vg_new_def vg_lookup_def vg_add_def py_int_0 py_int_7

lemma load_two_groups:
  "load_weights (Some example_mesh) (holding two_groups_document) ''w.json'' =
     (None, Some two_groups_loaded, Some 2)"
  by (simp add: load_eval)

lemma load_two_groups_again:
  "load_weights (Some two_groups_loaded) (holding two_groups_document) ''w.json'' =
     (None, Some two_groups_loaded, Some 2)"
  by (simp add: load_eval)

section \<open>Claims about the destructive overwrite\<close>

text \<open>
  C4: a successful \<open>load_weights\<close> removes every vertex group that the object had
  before. Afterwards the groups of the object are exactly those named in the document's
  \<^verbatim>\<open>group_names\<close>, each once; and the outcome is the one the import has on the same
  object without any group, so nothing of the earlier groups is left.
\<close>

theorem load_weights_destructive:
  assumes "load_weights (Some ob) fs filepath = (None, r, c)"
    and "files fs filepath = Some (Json wd)"
  shows "\<exists>ob' names. r = Some ob' \<and> group_names wd = Some names
           \<and> set (map vg_name (obj_vertex_groups ob')) = set names
           \<and> distinct (map vg_name (obj_vertex_groups ob'))
           \<and> load_weights (Some (ob\<lparr>obj_vertex_groups := []\<rparr>)) fs filepath = (None, r, c)"
proof -
  from assms obtain names m gs3 n where t: "obj_type ob = MESH"
    and vc: "vertex_count wd = Some (int (obj_vertices ob))"
    and gn: "group_names wd = Some names" and vg: "vertex_groups wd = Some m"
    and a: "apply_vertices (obj_vertices ob) m (create_groups [] names, 0) = (None, gs3, n)"
    and r: "r = Some (ob\<lparr>obj_vertex_groups := gs3\<rparr>)" and c: "c = Some n"
    by (rule load_weights_success_cases)
  have nm: "map vg_name gs3 = map vg_name (create_groups [] names)"
    by (rule names_apply_vertices [OF a])
  have s: "set (map vg_name gs3) = set names"
    unfolding nm by (simp only: set_names_create_groups) simp
  have d: "distinct (map vg_name gs3)"
    unfolding nm by (rule distinct_names_create_groups) simp
  have f: "load_weights (Some (ob\<lparr>obj_vertex_groups := []\<rparr>)) fs filepath = (None, r, c)"
    using load_weights_forgets_groups [OF t assms(2) vc, of "[]"] assms(1) by simp
  show ?thesis
    using r gn s d f by simp
qed

theorem load_weights_destructive_witness:
  "load_weights (Some example_mesh) (holding two_groups_document) ''w.json'' =
     (None, Some two_groups_loaded, Some 2)
   \<and> set (map vg_name (obj_vertex_groups two_groups_loaded)) = set [''Arm'', ''Leg'']
   \<and> distinct (map vg_name (obj_vertex_groups two_groups_loaded))
   \<and> load_weights (Some (example_mesh\<lparr>obj_vertex_groups := []\<rparr>))
        (holding two_groups_document) ''w.json'' = (None, Some two_groups_loaded, Some 2)"
proof -
  have f: "files (holding two_groups_document) ''w.json'' = Some (Json two_groups_document)"
    by simp
  from load_weights_destructive [OF load_two_groups f] show ?thesis
    using load_two_groups by auto
qed


section \<open>Claims about importing twice\<close>

text \<open>
  C5: running \<open>load_weights\<close> a second time with the same document, on the object that
  the first run left, gives the same result, the same object (vertex groups and weights)
  and the same count as the first run.
\<close>

theorem load_weights_idempotent:
  assumes "load_weights obj fs filepath = (e, obj', c)"
  shows "load_weights obj' fs filepath = (e, obj', c)"
proof (cases obj)
  case None
  with assms show ?thesis by (auto simp: load_weights_def)
next
  case (Some ob)
  show ?thesis
  proof (cases "obj_type ob = MESH \<and> (\<exists>wd. files fs filepath = Some (Json wd)
              \<and> vertex_count wd = Some (int (obj_vertices ob)))")
    case False
    then have "fst (snd (load_weights (Some ob) fs filepath)) = Some ob"
      by (rule load_weights_rejected)
    with assms Some have "obj' = obj" by simp
    with assms show ?thesis by simp
  next
    case True
    then obtain wd where t: "obj_type ob = MESH" and f: "files fs filepath = Some (Json wd)"
      and vc: "vertex_count wd = Some (int (obj_vertices ob))" by blast
    from load_weights_result_object [OF t f vc] assms Some
    obtain gs where "obj' = Some (ob\<lparr>obj_vertex_groups := gs\<rparr>)" by auto
    then show ?thesis
      using load_weights_forgets_groups [OF t f vc, of gs] assms Some by simp
  qed
qed

theorem load_weights_idempotent_witness:
  "load_weights (Some example_mesh) (holding two_groups_document) ''w.json'' =
     (None, Some two_groups_loaded, Some 2)
   \<and> load_weights (Some two_groups_loaded) (holding two_groups_document) ''w.json'' =
     (None, Some two_groups_loaded, Some 2)"
  using load_weights_idempotent [OF load_two_groups] load_two_groups by simp


section \<open>Claims about the count of vertices affected\<close>

text \<open>
  C7: the claim is that the count reported as vertices affected is the number of
  distinct vertices that had a weight applied. The code adds one for every weight it
  assigns, inside the loop over the groups of a vertex. On a document that gives vertex 0
  a weight in two groups, the count is 2 while one vertex carries weights.
\<close>

theorem load_weights_counts_assignments:
  "load_weights (Some example_mesh) (holding two_groups_document) ''w.json'' =
     (None, Some two_groups_loaded, Some 2)
   \<and> vertices_with_weight two_groups_loaded = [0]"
proof -
  have u: "[0 ..< 2] = [0, Suc 0]" by (simp add: upt_rec)
  have "vertices_with_weight two_groups_loaded = [0]"
    by (simp add: vertices_with_weight_def u)
  with load_two_groups show ?thesis by simp
qed

subsection \<open>A weight for a group that does not exist\<close>

lemma apply_groups_unknown_group:
  assumes "(g, w) \<in> set l" and "0 < w" and "\<not> vg_contains gs g"
  shows "\<exists>e. fst (apply_groups nv i l (gs, c)) = Some e"
  using assms
proof (induction l arbitrary: gs c)
  case Nil
  then show ?case by simp
next
  case (Cons p l)
  obtain g' w' where p: "p = (g', w')" by (cases p)
  show ?case
  proof (cases "0 < w'")
    case False
    with Cons p show ?thesis by auto
  next
    case True
    show ?thesis
    proof (cases "vg_lookup gs g'")
      case None
      with True p show ?thesis by simp
    next
      case (Some vgroup)
      then have "vg_contains gs g'" using vg_lookup_None [of gs g'] by simp
      with Cons.prems p have in_l: "(g, w) \<in> set l" by auto
      have "\<not> vg_contains (vg_add nv gs g' i w') g"
        using Cons.prems(3) vg_contains_names [OF names_vg_add] by simp
      from Cons.IH [OF in_l Cons.prems(2) this] True Some p show ?thesis
        by simp
    qed
  qed
qed

lemma apply_vertices_unknown_group:
  assumes "(k, l) \<in> set m" and "py_int k = Some i" and "i < int nv"
    and "(g, w) \<in> set l" and "0 < w" and "\<not> vg_contains gs g"
  shows "\<exists>e. fst (apply_vertices nv m (gs, c)) = Some e"
  using assms
proof (induction m arbitrary: gs c)
  case Nil
  then show ?case by simp
next
  case (Cons p m)
  obtain k' l' where p: "p = (k', l')" by (cases p)
  show ?case
  proof (cases "py_int k'")
    case None
    with p show ?thesis by simp
  next
    case (Some i')
    show ?thesis
    proof (cases "i' < int nv")
      case False
      with Some p Cons.prems have "(k, l) \<in> set m" by auto
      from Cons.IH [OF this Cons.prems(2-6)] False Some p show ?thesis by simp
    next
      case True
      obtain e1 gs1 c1 where a: "apply_groups nv i' l' (gs, c) = (e1, gs1, c1)"
        by (cases "apply_groups nv i' l' (gs, c)") auto
      show ?thesis
      proof (cases e1)
        case (Some ex)
        with \<open>py_int k' = Some i'\<close> True a p show ?thesis by simp
      next
        case None
        have "(k, l) \<noteq> (k', l')"
        proof
          assume "(k, l) = (k', l')"
          with Cons.prems \<open>py_int k' = Some i'\<close> have "i' = i" "(g, w) \<in> set l'" by auto
          from apply_groups_unknown_group [OF this(2) Cons.prems(5,6), of nv i' c] a None
          show False by simp
        qed
        with Cons.prems(1) p have in_m: "(k, l) \<in> set m" by auto
        have "\<not> vg_contains gs1 g"
          using Cons.prems(6) vg_contains_names [OF names_apply_groups [OF a]] by simp
        from Cons.IH [OF in_m Cons.prems(2-5) this, of c1]
          \<open>py_int k' = Some i'\<close> True a None p
        show ?thesis by simp
      qed
    qed
  qed
qed

lemma load_unknown_group:
  "load_weights (Some example_mesh) (holding unknown_group_document) ''w.json'' =
     (Some (LoadError (KeyError ''Leg'')), Some arm_loaded, None)"
  by (simp add: load_eval)

section \<open>Claims about failures after the groups were rebuilt\<close>

text \<open>
  C10, as stated: every document that passes the vertex-count check and whose
  \<^verbatim>\<open>vertex_groups\<close> map mentions a group name missing from \<^verbatim>\<open>group_names\<close> makes
  \<open>load_weights\<close> return a load error. The lookup of the group only happens for an
  entry whose index is below the vertex count and whose weight is \<^verbatim>\<open>> 0.0\<close>: the
  document below mentions \<^verbatim>\<open>"Leg"\<close> with weight 0 and \<^verbatim>\<open>"Tail"\<close> at index 7 of a mesh of
  2 vertices, and the import succeeds.
\<close>

theorem load_weights_unlisted_group_counterexample:
  "''Leg'' \<notin> set [''Arm''] \<and> ''Tail'' \<notin> set [''Arm'']
   \<and> load_weights (Some example_mesh) (holding skipped_names_document) ''w.json'' =
       (None, Some arm_loaded, Some 1)"
  by (simp add: load_eval)

text \<open>
  C10, amended: when a document that passes the vertex-count check holds an entry whose
  key reads as an index below the vertex count, with a weight \<^verbatim>\<open>> 0.0\<close> for a group
  name missing from \<^verbatim>\<open>group_names\<close>, \<open>load_weights\<close> returns a load error; the object
  it leaves has lost its earlier groups and has exactly the groups of \<^verbatim>\<open>group_names\<close>
  (the same outcome as on the object without any group).
\<close>

theorem load_weights_unknown_group_after_mutation:
  assumes "obj_type ob = MESH" and "files fs filepath = Some (Json wd)"
    and "vertex_count wd = Some (int (obj_vertices ob))"
    and "group_names wd = Some names" and "vertex_groups wd = Some m"
    and "(k, l) \<in> set m" and "py_int k = Some i" and "i < int (obj_vertices ob)"
    and "(g, w) \<in> set l" and "0 < w" and "g \<notin> set names"
  shows "\<exists>e gs. load_weights (Some ob) fs filepath =
             (Some (LoadError e), Some (ob\<lparr>obj_vertex_groups := gs\<rparr>), None)
           \<and> set (map vg_name gs) = set names \<and> distinct (map vg_name gs)
           \<and> load_weights (Some (ob\<lparr>obj_vertex_groups := []\<rparr>)) fs filepath =
               (Some (LoadError e), Some (ob\<lparr>obj_vertex_groups := gs\<rparr>), None)"
proof -
  let ?gs2 = "create_groups [] names"
  have nc: "\<not> vg_contains ?gs2 g"
    using assms(11) set_names_create_groups [of "[]" names] by (simp add: vg_contains_def)
  obtain e1 gs3 c where a: "apply_vertices (obj_vertices ob) m (?gs2, 0) = (e1, gs3, c)"
    by (cases "apply_vertices (obj_vertices ob) m (?gs2, 0)") auto
  from apply_vertices_unknown_group [OF assms(6-10) nc, of 0] a
  obtain e where e: "e1 = Some e" by auto
  have r: "load_weights (Some ob) fs filepath =
             (Some (LoadError e), Some (ob\<lparr>obj_vertex_groups := gs3\<rparr>), None)"
    unfolding load_weights_accepted [OF assms(1-5)] a e by simp
  have nm: "map vg_name gs3 = map vg_name ?gs2"
    by (rule names_apply_vertices [OF a])
  have s: "set (map vg_name gs3) = set names"
    unfolding nm by (simp only: set_names_create_groups) simp
  have d: "distinct (map vg_name gs3)"
    unfolding nm by (rule distinct_names_create_groups) simp
  have f: "load_weights (Some (ob\<lparr>obj_vertex_groups := []\<rparr>)) fs filepath =
             (Some (LoadError e), Some (ob\<lparr>obj_vertex_groups := gs3\<rparr>), None)"
    using load_weights_forgets_groups [OF assms(1-3), of "[]"] r by simp
  show ?thesis
    using r s d f by blast
qed

theorem load_weights_unknown_group_after_mutation_witness:
  "load_weights (Some example_mesh) (holding unknown_group_document) ''w.json'' =
     (Some (LoadError (KeyError ''Leg'')), Some arm_loaded, None)
   \<and> set (map vg_name (obj_vertex_groups arm_loaded)) = set [''Arm'']
   \<and> load_weights (Some (example_mesh\<lparr>obj_vertex_groups := []\<rparr>))
        (holding unknown_group_document) ''w.json'' =
       (Some (LoadError (KeyError ''Leg'')), Some arm_loaded, None)"
proof -
  have "\<exists>e gs. load_weights (Some example_mesh) (holding unknown_group_document) ''w.json'' =
             (Some (LoadError e), Some (example_mesh\<lparr>obj_vertex_groups := gs\<rparr>), None)
           \<and> set (map vg_name gs) = set [''Arm''] \<and> distinct (map vg_name gs)
           \<and> load_weights (Some (example_mesh\<lparr>obj_vertex_groups := []\<rparr>))
               (holding unknown_group_document) ''w.json'' =
               (Some (LoadError e), Some (example_mesh\<lparr>obj_vertex_groups := gs\<rparr>), None)"
    using load_weights_unknown_group_after_mutation
      [of example_mesh "holding unknown_group_document" "''w.json''" unknown_group_document
          "[''Arm'']" "[(''0'', [(''Arm'', 1/2), (''Leg'', 1/4)])]" "''0''"
          "[(''Arm'', 1/2), (''Leg'', 1/4)]" 0 "''Leg''" "1/4"]
    by (simp add: py_int_0)
  then show ?thesis
    unfolding load_unknown_group by auto
qed

subsection \<open>The weights that an import leaves\<close>

lemma weight_of_vg_add:
  "weight_of (vg_add nv gs n i w) g v =
     (if g = n \<and> i = int v \<and> v < nv \<and> vg_contains gs n then Some w else weight_of gs g v)"
proof (cases "0 \<le> i \<and> i < int nv")
  case False
  then show ?thesis by (auto simp: vg_add_def)
next
  case True
  have "weight_of (map (\<lambda>x. if vg_name x = n then x\<lparr>vg_weight := (vg_weight x)(nat i \<mapsto> w)\<rparr> else x) gs) g v =
        (if g = n \<and> nat i = v \<and> vg_contains gs n then Some w else weight_of gs g v)"
    by (induction gs) (auto simp: weight_of_def vg_lookup_def vg_contains_def)
  with True show ?thesis
    by (auto simp: vg_add_def)
qed

lemma group_pass_Cons:
  "group_pass g ((g', w') # l) acc = group_pass g l (if g' = g \<and> 0 < w' then Some w' else acc)"
  by (simp add: group_pass_def)

lemma doc_pass_Cons:
  "doc_pass ((k, l) # m) g v acc =
     doc_pass m g v (if py_int k = Some (int v) then group_pass g l acc else acc)"
  by (simp add: doc_pass_def)

lemma weight_of_apply_groups:
  assumes "apply_groups nv i l (gs, c) = (None, gs', c')" and "vg_contains gs g"
  shows "weight_of gs' g v =
           (if i = int v \<and> v < nv then group_pass g l (weight_of gs g v) else weight_of gs g v)"
  using assms
proof (induction l arbitrary: gs c)
  case Nil
  then show ?case by (simp add: group_pass_def)
next
  case (Cons p l)
  obtain g' w' where p: "p = (g', w')" by (cases p)
  show ?case
  proof (cases "0 < w'")
    case False
    with Cons p show ?thesis by (simp add: group_pass_Cons)
  next
    case True
    show ?thesis
    proof (cases "vg_lookup gs g'")
      case None
      with True p Cons.prems show ?thesis by simp
    next
      case (Some vgroup)
      then have c': "vg_contains gs g'" using vg_lookup_None [of gs g'] by simp
      from Some True p Cons.prems have
        a: "apply_groups nv i l (vg_add nv gs g' i w', c + 1) = (None, gs', c')" by simp
      have "vg_contains (vg_add nv gs g' i w') g"
        using Cons.prems(2) vg_contains_names [OF names_vg_add] by simp
      from Cons.IH [OF a this] c' True p show ?thesis
        by (simp add: group_pass_Cons weight_of_vg_add)
    qed
  qed
qed

lemma weight_of_apply_vertices:
  assumes "apply_vertices nv m (gs, c) = (None, gs', c')" and "vg_contains gs g" and "v < nv"
  shows "weight_of gs' g v = doc_pass m g v (weight_of gs g v)"
  using assms
proof (induction m arbitrary: gs c)
  case Nil
  then show ?case by (simp add: doc_pass_def)
next
  case (Cons p m)
  obtain k l where p: "p = (k, l)" by (cases p)
  show ?case
  proof (cases "py_int k")
    case None
    with p Cons.prems show ?thesis by simp
  next
    case (Some i)
    show ?thesis
    proof (cases "i < int nv")
      case False
      with Some p Cons.prems have "apply_vertices nv m (gs, c) = (None, gs', c')" by simp
      from Cons.IH [OF this Cons.prems(2,3)] False Some p Cons.prems(3) show ?thesis
        by (simp add: doc_pass_Cons)
    next
      case True
      obtain e1 gs1 c1 where a: "apply_groups nv i l (gs, c) = (e1, gs1, c1)"
        by (cases "apply_groups nv i l (gs, c)") auto
      show ?thesis
      proof (cases e1)
        case (Some ex)
        with \<open>py_int k = Some i\<close> True a p Cons.prems show ?thesis by simp
      next
        case None
        with \<open>py_int k = Some i\<close> True a p Cons.prems have
          b: "apply_vertices nv m (gs1, c1) = (None, gs', c')" by simp
        have c1: "vg_contains gs1 g"
          using Cons.prems(2) vg_contains_names [OF names_apply_groups [OF a]] by simp
        have w1: "weight_of gs1 g v =
            (if i = int v \<and> v < nv then group_pass g l (weight_of gs g v) else weight_of gs g v)"
          by (rule weight_of_apply_groups [OF a [unfolded None] Cons.prems(2)])
        from Cons.IH [OF b c1 Cons.prems(3)] w1 \<open>py_int k = Some i\<close> p Cons.prems(3)
        show ?thesis by (simp add: doc_pass_Cons)
      qed
    qed
  qed
qed

text \<open>No weight is ever given to an index that is not a vertex of the mesh.\<close>

lemma weight_of_apply_groups_beyond:
  assumes "apply_groups nv i l (gs, c) = (e, gs', c')" and "nv \<le> v"
  shows "weight_of gs' g v = weight_of gs g v"
  using assms
proof (induction l arbitrary: gs c)
  case Nil
  then show ?case by simp
next
  case (Cons p l)
  obtain g' w' where p: "p = (g', w')" by (cases p)
  show ?case
  proof (cases "0 < w'")
    case False
    with Cons p show ?thesis by simp
  next
    case True
    show ?thesis
    proof (cases "vg_lookup gs g'")
      case None
      with True p Cons.prems show ?thesis by simp
    next
      case (Some vgroup)
      with True p Cons.prems have
        a: "apply_groups nv i l (vg_add nv gs g' i w', c + 1) = (e, gs', c')" by simp
      from Cons.IH [OF a Cons.prems(2)] Cons.prems(2) show ?thesis
        by (simp add: weight_of_vg_add)
    qed
  qed
qed

lemma weight_of_apply_vertices_beyond:
  assumes "apply_vertices nv m (gs, c) = (e, gs', c')" and "nv \<le> v"
  shows "weight_of gs' g v = weight_of gs g v"
  using assms
proof (induction m arbitrary: gs c)
  case Nil
  then show ?case by simp
next
  case (Cons p m)
  obtain k l where p: "p = (k, l)" by (cases p)
  show ?case
  proof (cases "py_int k")
    case None
    with p Cons.prems show ?thesis by simp
  next
    case (Some i)
    show ?thesis
    proof (cases "i < int nv")
      case False
      with Some p Cons.prems have "apply_vertices nv m (gs, c) = (e, gs', c')" by simp
      from Cons.IH [OF this Cons.prems(2)] show ?thesis .
    next
      case True
      obtain e1 gs1 c1 where a: "apply_groups nv i l (gs, c) = (e1, gs1, c1)"
        by (cases "apply_groups nv i l (gs, c)") auto
      have w1: "weight_of gs1 g v = weight_of gs g v"
        by (rule weight_of_apply_groups_beyond [OF a Cons.prems(2)])
      show ?thesis
      proof (cases e1)
        case (Some ex)
        with \<open>py_int k = Some i\<close> True a p Cons.prems w1 show ?thesis by simp
      next
        case None
        with \<open>py_int k = Some i\<close> True a p Cons.prems have
          "apply_vertices nv m (gs1, c1) = (e, gs', c')" by simp
        from Cons.IH [OF this Cons.prems(2)] w1 show ?thesis by simp
      qed
    qed
  qed
qed

subsection \<open>Documents that apply without an error\<close>

lemma apply_groups_succeeds:
  assumes "list_all (\<lambda>gw. 0 < snd gw \<longrightarrow> vg_contains gs (fst gw)) l"
  shows "fst (apply_groups nv i l (gs, c)) = None"
  using assms
proof (induction l arbitrary: gs c)
  case Nil
  then show ?case by simp
next
  case (Cons p l)
  obtain g' w' where p: "p = (g', w')" by (cases p)
  show ?case
  proof (cases "0 < w'")
    case False
    with Cons p show ?thesis by simp
  next
    case True
    with Cons.prems p have "vg_contains gs g'" by simp
    then obtain vgroup where lk: "vg_lookup gs g' = Some vgroup"
      using vg_lookup_None [of gs g'] by (cases "vg_lookup gs g'") auto
    have "list_all (\<lambda>gw. 0 < snd gw \<longrightarrow> vg_contains (vg_add nv gs g' i w') (fst gw)) l"
      using Cons.prems vg_contains_names [OF names_vg_add, of nv gs g' i w'] by simp
    from Cons.IH [OF this] True lk p show ?thesis by simp
  qed
qed

lemma apply_vertices_succeeds:
  assumes "applicable nv names m" and "set names \<subseteq> set (map vg_name gs)"
  shows "fst (apply_vertices nv m (gs, c)) = None"
  using assms
proof (induction m arbitrary: gs c)
  case Nil
  then show ?case by simp
next
  case (Cons p m)
  obtain k l where p: "p = (k, l)" by (cases p)
  from Cons.prems(1) p obtain i where i: "py_int k = Some i"
    and l: "i < int nv \<longrightarrow> list_all (\<lambda>gw. 0 < snd gw \<longrightarrow> fst gw \<in> set names) l"
    and rest: "applicable nv names m"
    by (cases "py_int k") (auto simp: applicable_def)
  show ?case
  proof (cases "i < int nv")
    case False
    with Cons.IH [OF rest Cons.prems(2)] i p show ?thesis by simp
  next
    case True
    with l Cons.prems(2) have "list_all (\<lambda>gw. 0 < snd gw \<longrightarrow> vg_contains gs (fst gw)) l"
      by (auto simp: list_all_iff vg_contains_def)
    from apply_groups_succeeds [OF this, of nv i c]
    obtain gs1 c1 where a: "apply_groups nv i l (gs, c) = (None, gs1, c1)"
      by (cases "apply_groups nv i l (gs, c)") auto
    have "set names \<subseteq> set (map vg_name gs1)"
      using Cons.prems(2) names_apply_groups [OF a] by simp
    from Cons.IH [OF rest this, of c1] a True i p show ?thesis by simp
  qed
qed

lemma apply_vertices_in_bounds_entries:
  "apply_vertices nv (in_bounds_entries nv m) (gs, c) = apply_vertices nv m (gs, c)"
proof (induction m arbitrary: gs c)
  case Nil
  then show ?case by (simp add: in_bounds_entries_def)
next
  case (Cons p m)
  obtain k l where p: "p = (k, l)" by (cases p)
  have ib: "in_bounds_entries nv ((k, l) # m) =
      (if (case py_int k of None \<Rightarrow> True | Some i \<Rightarrow> i < int nv)
       then (k, l) # in_bounds_entries nv m else in_bounds_entries nv m)"
    by (simp add: in_bounds_entries_def)
  show ?case
  proof (cases "py_int k")
    case None
    then show ?thesis by (simp add: ib p)
  next
    case (Some i)
    show ?thesis
    proof (cases "i < int nv")
      case False
      with Some Cons.IH show ?thesis by (simp add: ib p)
    next
      case True
      obtain e1 gs1 c1 where a: "apply_groups nv i l (gs, c) = (e1, gs1, c1)"
        by (cases "apply_groups nv i l (gs, c)") auto
      from True Some a Cons.IH [of gs1 c1] show ?thesis
        by (cases e1) (simp_all add: ib p)
    qed
  qed
qed

subsection \<open>Groups created by the import\<close>

lemma create_groups_fresh:
  assumes "g \<in> set (create_groups gs names)"
  shows "g \<in> set gs \<or> vg_weight g = Map.empty"
  using assms unfolding create_groups_def
proof (induction names arbitrary: gs)
  case Nil
  then show ?case by simp
next
  case (Cons n names)
  from Cons.prems have "g \<in> set (foldl create_step (create_step gs n) names)" by simp
  from Cons.IH [OF this] show ?case
    by (auto simp: create_step_def vg_new_def split: if_splits)
qed

lemma weight_of_create_groups: "weight_of (create_groups [] names) g v = None"
proof (cases "vg_lookup (create_groups [] names) g")
  case None
  then show ?thesis by (simp add: weight_of_def)
next
  case (Some vg)
  then have "vg \<in> set (create_groups [] names)"
    unfolding vg_lookup_def by (auto simp: find_Some_iff)
  from create_groups_fresh [OF this] Some show ?thesis
    by (simp add: weight_of_def)
qed

lemma load_beyond_bounds:
  "load_weights (Some example_mesh) (holding beyond_bounds_document) ''w.json'' =
     (None, Some arm_loaded, Some 1)"
  by (simp add: load_eval)

lemma load_within_bounds:
  "load_weights (Some example_mesh) (holding within_bounds_document) ''w.json'' =
     (None, Some arm_loaded, Some 1)"
  by (simp add: load_eval)

section \<open>Claims about entries beyond the vertex count\<close>

text \<open>
  C6: on a document that passes the vertex-count check and can be applied (every key
  reads as an integer and has no more digits than the interpreter converts, every
  weight \<^verbatim>\<open>> 0.0\<close> of an entry below the vertex count is for a listed group),
  \<open>load_weights\<close> does not fail, also when some vertex index is greater than or equal to
  the vertex count. Such entries are skipped: the outcome (object and count) is the one
  for the document without them, and no index beyond the mesh gets a weight. The entries
  within bounds are applied: for every listed group and every vertex, the weight left is
  the one the document gives to that pair.
\<close>

theorem load_weights_skips_out_of_bounds:
  assumes "obj_type ob = MESH" and "files fs filepath = Some (Json wd)"
    and "vertex_count wd = Some (int (obj_vertices ob))"
    and "group_names wd = Some names" and "vertex_groups wd = Some m"
    and "applicable (obj_vertices ob) names m"
    and "list_all (\<lambda>kl. within_digit_limit (fst kl)) m"
  shows "\<exists>gs c. load_weights (Some ob) fs filepath =
             (None, Some (ob\<lparr>obj_vertex_groups := gs\<rparr>), Some c)
           \<and> load_weights (Some ob)
               (fs\<lparr>files := (files fs)(filepath \<mapsto>
                  Json (wd\<lparr>vertex_groups := Some (in_bounds_entries (obj_vertices ob) m)\<rparr>))\<rparr>)
               filepath = (None, Some (ob\<lparr>obj_vertex_groups := gs\<rparr>), Some c)
           \<and> (\<forall>g \<in> set names. \<forall>v < obj_vertices ob. weight_of gs g v = doc_pass m g v None)
           \<and> (\<forall>g v. obj_vertices ob \<le> v \<longrightarrow> weight_of gs g v = None)"
proof -
  let ?nv = "obj_vertices ob"
  let ?gs2 = "create_groups [] names"
  let ?wd' = "wd\<lparr>vertex_groups := Some (in_bounds_entries ?nv m)\<rparr>"
  let ?fs' = "fs\<lparr>files := (files fs)(filepath \<mapsto> Json ?wd')\<rparr>"
  have sub: "set names \<subseteq> set (map vg_name ?gs2)"
    using set_names_create_groups [of "[]" names] by simp
  from apply_vertices_succeeds [OF assms(6) sub, of 0]
  obtain gs c where a: "apply_vertices ?nv m (?gs2, 0) = (None, gs, c)"
    by (cases "apply_vertices ?nv m (?gs2, 0)") auto
  have r: "load_weights (Some ob) fs filepath =
             (None, Some (ob\<lparr>obj_vertex_groups := gs\<rparr>), Some c)"
    unfolding load_weights_accepted [OF assms(1-5)] a by simp
  have f': "files ?fs' filepath = Some (Json ?wd')" by simp
  have r': "load_weights (Some ob) ?fs' filepath =
             (None, Some (ob\<lparr>obj_vertex_groups := gs\<rparr>), Some c)"
    unfolding load_weights_accepted
      [OF assms(1) f', of names "in_bounds_entries ?nv m", simplified, OF assms(3,4)]
      apply_vertices_in_bounds_entries a by simp
  have w: "weight_of gs g v = doc_pass m g v None" if "g \<in> set names" and "v < ?nv" for g v
  proof -
    from that(1) sub have "vg_contains ?gs2 g" by (auto simp: vg_contains_def)
    from weight_of_apply_vertices [OF a this that(2)] show ?thesis
      by (simp add: weight_of_create_groups)
  qed
  have b: "weight_of gs g v = None" if "?nv \<le> v" for g v
    using weight_of_apply_vertices_beyond [OF a that, of g]
    by (simp add: weight_of_create_groups)
  show ?thesis
    using r r' w b by blast
qed

theorem load_weights_skips_out_of_bounds_witness:
  "load_weights (Some example_mesh) (holding beyond_bounds_document) ''w.json'' =
     (None, Some arm_loaded, Some 1)
   \<and> in_bounds_entries 2 [(''7'', [(''Tail'', 1/4)]), (''0'', [(''Arm'', 1/2)])] =
       [(''0'', [(''Arm'', 1/2)])]
   \<and> load_weights (Some example_mesh) (holding within_bounds_document) ''w.json'' =
     (None, Some arm_loaded, Some 1)
   \<and> weight_of (obj_vertex_groups arm_loaded) ''Arm'' 0 = Some (1/2)
   \<and> weight_of (obj_vertex_groups arm_loaded) ''Tail'' 7 = None"
proof -
  let ?m = "[(''7'', [(''Tail'', 1/4)]), (''0'', [(''Arm'', 1/2 :: real)])]"
  have ib: "in_bounds_entries 2 ?m = [(''0'', [(''Arm'', 1/2)])]"
    by (simp add: in_bounds_entries_def py_int_0 py_int_7)
  have ap: "applicable (obj_vertices example_mesh) [''Arm''] ?m"
    by (simp add: applicable_def py_int_0 py_int_7)
  have dl: "list_all (\<lambda>kl. within_digit_limit (fst kl)) ?m"
    by (simp add: within_digit_limit_def int_max_str_digits_def is_digit_def)
  have dp: "doc_pass ?m ''Arm'' 0 None = Some (1/2)"
    by (simp add: doc_pass_def group_pass_def py_int_0 py_int_7)
  from load_weights_skips_out_of_bounds
    [of example_mesh "holding beyond_bounds_document" "''w.json''" beyond_bounds_document
        "[''Arm'']" ?m, OF _ _ _ _ _ ap dl]
  obtain gs c where r: "load_weights (Some example_mesh) (holding beyond_bounds_document)
        ''w.json'' = (None, Some (example_mesh\<lparr>obj_vertex_groups := gs\<rparr>), Some c)"
    and r': "load_weights (Some example_mesh)
        ((holding beyond_bounds_document)\<lparr>files :=
           (files (holding beyond_bounds_document))(''w.json'' \<mapsto>
              Json (beyond_bounds_document\<lparr>vertex_groups :=
                Some (in_bounds_entries (obj_vertices example_mesh) ?m)\<rparr>))\<rparr>)
        ''w.json'' = (None, Some (example_mesh\<lparr>obj_vertex_groups := gs\<rparr>), Some c)"
    and w: "\<forall>g \<in> set [''Arm'']. \<forall>v < obj_vertices example_mesh.
        weight_of gs g v = doc_pass ?m g v None"
    and b: "\<forall>g v. obj_vertices example_mesh \<le> v \<longrightarrow> weight_of gs g v = None"
    by auto
  from r have gs: "gs = obj_vertex_groups arm_loaded" and c: "c = 1"
    unfolding load_beyond_bounds by simp_all
  from w have w0: "weight_of gs ''Arm'' 0 = Some (1/2)"
    using dp by simp
  from b have b7: "weight_of gs ''Tail'' 7 = None" by simp
  from r' have "load_weights (Some example_mesh) (holding within_bounds_document) ''w.json'' =
     (None, Some arm_loaded, Some 1)"
    unfolding gs c by (simp add: ib)
  with r w0 b7 ib show ?thesis
    unfolding gs c by simp
qed

section \<open>Claims about the round trip\<close>

subsection \<open>The exported document as a dictionary\<close>

lemma map_of_v_weights_step:
  "map_of (v_weights_step v d g) =
     (case stored_weight g v of None \<Rightarrow> map_of d | Some w \<Rightarrow> (map_of d)(vg_name g \<mapsto> w))"
  by (simp add: v_weights_step_def stored_weight_def update_conv' split: option.splits)

lemma map_of_foldl_v_weights_other:
  "n \<notin> set (map vg_name gs) \<Longrightarrow> map_of (foldl (v_weights_step v) d gs) n = map_of d n"
proof (induction gs arbitrary: d)
  case Nil
  then show ?case by simp
next
  case (Cons a gs)
  then show ?case
    by (simp add: map_of_v_weights_step split: option.splits)
qed

lemma map_of_foldl_v_weights:
  assumes "distinct (map vg_name gs)" and "g \<in> set gs"
  shows "map_of (foldl (v_weights_step v) d gs) (vg_name g) =
           (case stored_weight g v of None \<Rightarrow> map_of d (vg_name g) | Some w \<Rightarrow> Some w)"
  using assms
proof (induction gs arbitrary: d)
  case Nil
  then show ?case by simp
next
  case (Cons a gs)
  show ?case
  proof (cases "g = a")
    case True
    from Cons.prems(1) have "vg_name a \<notin> set (map vg_name gs)" by simp
    from map_of_foldl_v_weights_other [OF this] True show ?thesis
      by (simp add: map_of_v_weights_step split: option.splits)
  next
    case False
    with Cons.prems have in_gs: "g \<in> set gs" and d: "distinct (map vg_name gs)"
      and fresh: "vg_name a \<notin> vg_name ` set gs" by auto
    from in_gs have "vg_name g \<in> vg_name ` set gs" by (rule imageI)
    with fresh have ne: "vg_name g \<noteq> vg_name a" by metis
    from Cons.IH [OF d in_gs, of "v_weights_step v d a"] ne show ?thesis
      by (simp add: map_of_v_weights_step split: option.splits)
  qed
qed

lemma map_of_v_weights:
  assumes "distinct (map vg_name gs)" and "g \<in> set gs"
  shows "map_of (v_weights gs v) (vg_name g) = stored_weight g v"
  using map_of_foldl_v_weights [OF assms, of v "[]"]
  by (simp add: v_weights_def split: option.splits)

lemma distinct_foldl_v_weights:
  "distinct (map fst d) \<Longrightarrow> distinct (map fst (foldl (v_weights_step v) d gs))"
proof (induction gs arbitrary: d)
  case Nil
  then show ?case by simp
next
  case (Cons a gs)
  have "distinct (map fst (v_weights_step v d a))"
    using Cons.prems by (simp add: v_weights_step_def distinct_update split: option.splits)
  from Cons.IH [OF this] show ?case by simp
qed

lemma distinct_v_weights: "distinct (map fst (v_weights gs v))"
  using distinct_foldl_v_weights [of "[]" v gs] by (simp add: v_weights_def)

lemma map_of_foldl_collect:
  "map_of (foldl (collect_step gs) m vs) (py_str v) =
     (if v \<in> set vs \<and> v_weights gs v \<noteq> [] then Some (v_weights gs v) else map_of m (py_str v))"
proof (induction vs arbitrary: m)
  case Nil
  then show ?case by simp
next
  case (Cons u vs)
  have "map_of (collect_step gs m u) (py_str v) =
      (if u = v \<and> v_weights gs v \<noteq> [] then Some (v_weights gs v) else map_of m (py_str v))"
    by (auto simp: collect_step_def Let_def update_conv' dest: py_str_inject)
  with Cons.IH [of "collect_step gs m u"] show ?case by auto
qed

lemma map_of_collect_vertex_groups:
  "map_of (collect_vertex_groups ob) (py_str v) =
     (if v < obj_vertices ob \<and> v_weights (obj_vertex_groups ob) v \<noteq> []
      then Some (v_weights (obj_vertex_groups ob) v) else None)"
  by (simp add: collect_vertex_groups_def map_of_foldl_collect)

lemma distinct_foldl_collect:
  "distinct (map fst m) \<Longrightarrow> distinct (map fst (foldl (collect_step gs) m vs))"
proof (induction vs arbitrary: m)
  case Nil
  then show ?case by simp
next
  case (Cons u vs)
  have "distinct (map fst (collect_step gs m u))"
    using Cons.prems by (simp add: collect_step_def Let_def distinct_update)
  from Cons.IH [OF this] show ?case by simp
qed

lemma distinct_collect_vertex_groups: "distinct (map fst (collect_vertex_groups ob))"
  using distinct_foldl_collect [of "[]"] by (simp add: collect_vertex_groups_def)

lemma document_entry_collect:
  assumes "distinct (map vg_name (obj_vertex_groups ob))" and "g \<in> set (obj_vertex_groups ob)"
    and "v < obj_vertices ob"
  shows "document_entry (collect_vertex_groups ob) v (vg_name g) = stored_weight g v"
proof (cases "v_weights (obj_vertex_groups ob) v = []")
  case True
  with map_of_v_weights [OF assms(1,2), of v] show ?thesis
    by (simp add: document_entry_def map_of_collect_vertex_groups)
next
  case False
  with map_of_v_weights [OF assms(1,2), of v] assms(3) show ?thesis
    by (simp add: document_entry_def map_of_collect_vertex_groups)
qed

subsection \<open>What the importer reads in an exported document\<close>

lemma group_pass_map_of:
  assumes "distinct (map fst l)" and "\<forall>gw \<in> set l. 0 < snd gw"
  shows "group_pass g l acc = (case map_of l g of None \<Rightarrow> acc | Some w \<Rightarrow> Some w)"
  using assms
proof (induction l arbitrary: acc)
  case Nil
  then show ?case by (simp add: group_pass_def)
next
  case (Cons p l)
  obtain g' w' where p: "p = (g', w')" by (cases p)
  from Cons.prems p have d: "distinct (map fst l)" and pos: "\<forall>gw \<in> set l. 0 < snd gw"
    and w': "0 < w'" and fresh: "g' \<notin> fst ` set l" by auto
  show ?case
  proof (cases "g' = g")
    case True
    with fresh have "map_of l g = None" by (simp add: map_of_eq_None_iff)
    with Cons.IH [OF d pos, of "Some w'"] True w' p show ?thesis
      by (simp add: group_pass_Cons)
  next
    case False
    with Cons.IH [OF d pos, of acc] p show ?thesis
      by (simp add: group_pass_Cons)
  qed
qed

lemma doc_pass_map_of:
  assumes "distinct (map fst m)" and "\<forall>kl \<in> set m. \<exists>u. fst kl = py_str u"
  shows "doc_pass m g v acc =
           (case map_of m (py_str v) of None \<Rightarrow> acc | Some l \<Rightarrow> group_pass g l acc)"
  using assms
proof (induction m arbitrary: acc)
  case Nil
  then show ?case by (simp add: doc_pass_def)
next
  case (Cons p m)
  obtain k l where p: "p = (k, l)" by (cases p)
  from Cons.prems p obtain u where k: "k = py_str u" by auto
  from Cons.prems p have d: "distinct (map fst m)"
    and keys: "\<forall>kl \<in> set m. \<exists>u. fst kl = py_str u" and fresh: "k \<notin> fst ` set m" by auto
  show ?case
  proof (cases "u = v")
    case True
    with fresh k have "map_of m (py_str v) = None" by (simp add: map_of_eq_None_iff)
    with Cons.IH [OF d keys, of "group_pass g l acc"] True k p show ?thesis
      by (simp add: doc_pass_Cons py_int_py_str)
  next
    case False
    then have "py_str u \<noteq> py_str v" using py_str_inject by blast
    with Cons.IH [OF d keys, of acc] False k p show ?thesis
      by (simp add: doc_pass_Cons py_int_py_str)
  qed
qed

lemma doc_pass_collect:
  assumes "distinct (map vg_name (obj_vertex_groups ob))" and "g \<in> set (obj_vertex_groups ob)"
    and "v < obj_vertices ob"
  shows "doc_pass (collect_vertex_groups ob) (vg_name g) v None = stored_weight g v"
proof -
  let ?m = "collect_vertex_groups ob"
  let ?gs = "obj_vertex_groups ob"
  have keys: "\<forall>kl \<in> set ?m. \<exists>u. fst kl = py_str u"
    using collect_vertex_groups_entries [of _ _ ob] by fastforce
  have pos: "\<forall>gw \<in> set (v_weights ?gs v). 0 < snd gw"
    using v_weights_entries [of _ _ ?gs v] by fastforce
  have gp: "group_pass (vg_name g) (v_weights ?gs v) None = stored_weight g v"
    using group_pass_map_of [OF distinct_v_weights pos, of "vg_name g" None]
      map_of_v_weights [OF assms(1,2), of v]
    by (simp split: option.splits)
  have "doc_pass ?m (vg_name g) v None = document_entry ?m v (vg_name g)"
    unfolding doc_pass_map_of [OF distinct_collect_vertex_groups keys]
    using gp map_of_v_weights [OF assms(1,2), of v]
    by (simp add: document_entry_def map_of_collect_vertex_groups)
  with document_entry_collect [OF assms] show ?thesis by simp
qed

lemma applicable_collect:
  "applicable (obj_vertices ob) (map vg_name (obj_vertex_groups ob)) (collect_vertex_groups ob)"
proof -
  have "case py_int (fst kl) of None \<Rightarrow> False
        | Some i \<Rightarrow> i < int (obj_vertices ob) \<longrightarrow>
            list_all (\<lambda>gw. 0 < snd gw \<longrightarrow> fst gw \<in> set (map vg_name (obj_vertex_groups ob)))
              (snd kl)"
    if "kl \<in> set (collect_vertex_groups ob)" for kl
  proof -
    obtain k d where kl: "kl = (k, d)" by (cases kl)
    from collect_vertex_groups_entries [of k d ob] that kl obtain u
      where u: "k = py_str u" "d = v_weights (obj_vertex_groups ob) u" by auto
    have "fst gw \<in> set (map vg_name (obj_vertex_groups ob))" if "gw \<in> set d" for gw
    proof -
      from that u(2) have "(fst gw, snd gw) \<in> set (v_weights (obj_vertex_groups ob) u)"
        by simp
      from v_weights_entries [OF this] obtain g
        where "g \<in> set (obj_vertex_groups ob)" and "vg_name g = fst gw" by blast
      then show ?thesis by force
    qed
    then show ?thesis
      by (simp add: kl u(1) py_int_py_str list_all_iff)
  qed
  then show ?thesis
    by (simp add: applicable_def list_all_iff)
qed

subsection \<open>Export followed by import\<close>

lemma document_make_weight_data:
  "vertex_count (make_weight_data ob) = Some (int (obj_vertices ob))"
  "group_names (make_weight_data ob) = Some (map vg_name (obj_vertex_groups ob))"
  by (simp_all add: make_weight_data_def Let_def split: prod.splits)

lemma collect_source_mesh: "collect_vertex_groups source_mesh = [(''0'', [(''Arm'', 1/2)])]"
proof -
  have u: "[0 ..< 2] = [0, Suc 0]" by (simp add: upt_rec)
  show ?thesis
    by (simp add: collect_vertex_groups_def collect_step_def u v_weights_def
        v_weights_step_def py_str_0)
qed

lemma load_saved_source_mesh:
  "load_weights (Some example_mesh) (holding (make_weight_data source_mesh)) ''w.json'' =
     (None, Some arm_loaded, Some 1)"
proof -
  have f: "files (holding (make_weight_data source_mesh)) ''w.json'' =
      Some (Json (make_weight_data source_mesh))" by simp
  have vc: "vertex_count (make_weight_data source_mesh) = Some (int (obj_vertices example_mesh))"
    by (simp add: document_make_weight_data)
  have gn: "group_names (make_weight_data source_mesh) = Some [''Arm'']"
    by (simp add: document_make_weight_data)
  have vg: "vertex_groups (make_weight_data source_mesh) = Some [(''0'', [(''Arm'', 1/2)])]"
    by (simp only: vertex_groups_make_weight_data collect_source_mesh)
  have t: "obj_type example_mesh = MESH" by simp
  show ?thesis
    unfolding load_weights_accepted [OF t f vc gn vg]
    by (simp add: create_groups_def create_step_def vg_contains_def vg_new_def vg_lookup_def
        vg_add_def py_int_0)
qed

text \<open>
  C1: when \<open>save_weights\<close> has written the weights of a mesh to a path, \<open>load_weights\<close>
  of that path into a mesh with the same number of vertices succeeds, and for every
  group of the source mesh and every vertex the target then has exactly the weight that
  the source had when that weight is greater than 0, and no weight when the source
  weight is 0 or less or the vertex is not in the group; the written document has the
  same entry, or none, for the pair. Group names are distinct, as the host keeps them.
\<close>

theorem save_load_roundtrip:
  assumes "save_weights (Some src) fs filepath = (None, fs')"
    and "distinct (map vg_name (obj_vertex_groups src))"
    and "obj_type tgt = MESH" and "obj_vertices tgt = obj_vertices src"
  shows "\<exists>gs c wd m. load_weights (Some tgt) fs' filepath =
             (None, Some (tgt\<lparr>obj_vertex_groups := gs\<rparr>), Some c)
           \<and> files fs' filepath = Some (Json wd) \<and> vertex_groups wd = Some m
           \<and> (\<forall>g \<in> set (obj_vertex_groups src). \<forall>v < obj_vertices src.
                 weight_of gs (vg_name g) v = stored_weight g v
               \<and> document_entry m v (vg_name g) = stored_weight g v)"
proof -
  let ?wd = "make_weight_data src"
  let ?m = "collect_vertex_groups src"
  let ?names = "map vg_name (obj_vertex_groups src)"
  let ?gs2 = "create_groups [] ?names"
  let ?nv = "obj_vertices tgt"
  from save_weights_success(3) [OF assms(1)]
  have f: "files fs' filepath = Some (Json ?wd)" by simp
  have vc: "vertex_count ?wd = Some (int ?nv)"
    by (simp add: document_make_weight_data assms(4))
  have gn: "group_names ?wd = Some ?names" by (rule document_make_weight_data)
  have vg: "vertex_groups ?wd = Some ?m" by (rule vertex_groups_make_weight_data)
  have sub: "set ?names \<subseteq> set (map vg_name ?gs2)"
    using set_names_create_groups [of "[]" ?names] by simp
  have ap: "applicable ?nv ?names ?m"
    unfolding assms(4) by (rule applicable_collect)
  from apply_vertices_succeeds [OF ap sub, of 0]
  obtain gs c where a: "apply_vertices ?nv ?m (?gs2, 0) = (None, gs, c)"
    by (cases "apply_vertices ?nv ?m (?gs2, 0)") auto
  have r: "load_weights (Some tgt) fs' filepath =
             (None, Some (tgt\<lparr>obj_vertex_groups := gs\<rparr>), Some c)"
    unfolding load_weights_accepted [OF assms(3) f vc gn vg] a by simp
  have w: "weight_of gs (vg_name g) v = stored_weight g v
         \<and> document_entry ?m v (vg_name g) = stored_weight g v"
    if g: "g \<in> set (obj_vertex_groups src)" and v: "v < obj_vertices src" for g v
  proof -
    from g sub have "vg_contains ?gs2 (vg_name g)" by (auto simp: vg_contains_def)
    from weight_of_apply_vertices [OF a this, of v] v assms(4)
    have "weight_of gs (vg_name g) v = doc_pass ?m (vg_name g) v None"
      by (simp add: weight_of_create_groups)
    with doc_pass_collect [OF assms(2) g v] document_entry_collect [OF assms(2) g v]
    show ?thesis by simp
  qed
  from r f vg w show ?thesis by blast
qed

theorem save_load_roundtrip_witness:
  "save_weights (Some source_mesh) \<lparr>files = Map.empty, writable = (\<lambda>p. True)\<rparr> ''w.json'' =
     (None, holding (make_weight_data source_mesh))
   \<and> load_weights (Some example_mesh) (holding (make_weight_data source_mesh)) ''w.json'' =
       (None, Some arm_loaded, Some 1)
   \<and> vertex_groups (make_weight_data source_mesh) = Some [(''0'', [(''Arm'', 1/2)])]
   \<and> weight_of (obj_vertex_groups arm_loaded) ''Arm'' 0 = Some (1/2)
   \<and> weight_of (obj_vertex_groups arm_loaded) ''Arm'' 1 = None
   \<and> document_entry [(''0'', [(''Arm'', 1/2)])] 0 ''Arm'' = Some (1/2)
   \<and> document_entry [(''0'', [(''Arm'', 1/2)])] 1 ''Arm'' = None"
proof -
  let ?fs = "\<lparr>files = Map.empty, writable = (\<lambda>p. True)\<rparr> :: filesystem"
  let ?fs' = "holding (make_weight_data source_mesh)"
  let ?arm = "\<lparr>vg_name = ''Arm'', vg_weight = [0 \<mapsto> 1/2, (1::nat) \<mapsto> (0::real)]\<rparr>"
  have s: "save_weights (Some source_mesh) ?fs ''w.json'' = (None, ?fs')"
    by (simp add: save_weights_def)
  have d: "distinct (map vg_name (obj_vertex_groups source_mesh))" by simp
  have t: "obj_type example_mesh = MESH" by simp
  have n: "obj_vertices example_mesh = obj_vertices source_mesh" by simp
  from save_load_roundtrip [OF s d t n] obtain gs c wd m
    where l: "load_weights (Some example_mesh) ?fs' ''w.json'' =
               (None, Some (example_mesh\<lparr>obj_vertex_groups := gs\<rparr>), Some c)"
      and wd: "files ?fs' ''w.json'' = Some (Json wd)" and m: "vertex_groups wd = Some m"
      and w: "\<forall>g \<in> set (obj_vertex_groups source_mesh). \<forall>v < obj_vertices source_mesh.
                 weight_of gs (vg_name g) v = stored_weight g v
               \<and> document_entry m v (vg_name g) = stored_weight g v"
    by blast
  from l have gs: "gs = obj_vertex_groups arm_loaded" and c: "c = 1"
    unfolding load_saved_source_mesh by simp_all
  from wd have "wd = make_weight_data source_mesh" by simp
  with m have mc: "m = [(''0'', [(''Arm'', 1/2)])]"
    by (simp only: vertex_groups_make_weight_data collect_source_mesh option.inject)
  have s0: "stored_weight ?arm 0 = Some (1/2)" and s1: "stored_weight ?arm 1 = None"
    by (simp_all add: stored_weight_def)
  from w have w0: "weight_of gs ''Arm'' 0 = Some (1/2) \<and> document_entry m 0 ''Arm'' = Some (1/2)"
    and w1: "weight_of gs ''Arm'' 1 = None \<and> document_entry m 1 ''Arm'' = None"
    using s0 s1 by simp_all
  have v: "vertex_groups (make_weight_data source_mesh) = Some [(''0'', [(''Arm'', 1/2)])]"
    by (simp only: vertex_groups_make_weight_data collect_source_mesh)
  show ?thesis
    using s load_saved_source_mesh v w0 [unfolded gs mc] w1 [unfolded gs mc]
    by (simp only: simp_thms)
qed

end
